theory Spec2Isabelle
  imports Complex_Main
begin

section \<open>Python values\<close>

text \<open>
  The programs are \<^verbatim>\<open>phase3/tools/testgen.py\<close> (class \<^verbatim>\<open>TestImageGenerator\<close>) and
  \<^verbatim>\<open>phase3/tools/testscan.py\<close> (class \<^verbatim>\<open>ImageScanner\<close>).

  Python integers are unbounded: \<open>int\<close>. Python floats are modelled by exact real
  numbers: every quotient, product and comparison below is the exact one, so the
  rounding error of IEEE doubles is not part of the model. Exceptions are values of
  \<open>py_error\<close>, returned as \<open>Inl\<close>.
\<close>

datatype py_error = ValueError | ZeroDivisionError | IndexError | KeyError

text \<open>\<^verbatim>\<open>int(x)\<close> on a float truncates toward zero.\<close>

definition py_int :: "real \<Rightarrow> int" where
  "py_int x = (if 0 \<le> x then \<lfloor>x\<rfloor> else \<lceil>x\<rceil>)"

text \<open>
  \<^verbatim>\<open>xs[i]\<close> reads position \<open>i\<close> when \<open>0 \<le> i < len(xs)\<close>, position \<open>len(xs) + i\<close>
  when \<open>-len(xs) \<le> i < 0\<close>, and raises otherwise.
\<close>

definition py_index :: "'a list \<Rightarrow> int \<Rightarrow> py_error + 'a" where
  "py_index xs i =
     (if 0 \<le> i \<and> i < int (length xs) then Inr (xs ! nat i)
      else if i < 0 \<and> - int (length xs) \<le> i then Inr (xs ! nat (int (length xs) + i))
      else Inl IndexError)"

text \<open>\<^verbatim>\<open>range(a, b)\<close> and a \<^verbatim>\<open>for\<close> loop whose body may raise.\<close>

definition py_range :: "int \<Rightarrow> int \<Rightarrow> int list" where
  "py_range a b = [a..b - 1]"

fun for_each :: "'a list \<Rightarrow> ('a \<Rightarrow> 's \<Rightarrow> py_error + 's) \<Rightarrow> 's \<Rightarrow> py_error + 's" where
  "for_each [] body s = Inr s"
| "for_each (x # xs) body s =
     (case body x s of Inl e \<Rightarrow> Inl e | Inr s' \<Rightarrow> for_each xs body s')"

section \<open>Raster images\<close>

text \<open>An image is a list of rows, each a list of intensities; \<^verbatim>\<open>image[y][x]\<close>.\<close>

type_synonym image = "int list list"

definition image_height :: "image \<Rightarrow> int" where
  "image_height img = int (length img)"

text \<open>\<^verbatim>\<open>width = len(image[0]) if height > 0 else 0\<close>\<close>

definition image_width :: "image \<Rightarrow> int" where
  "image_width img = (if image_height img > 0 then int (length (hd img)) else 0)"

definition read_pixel :: "image \<Rightarrow> int \<Rightarrow> int \<Rightarrow> py_error + int" where
  "read_pixel img y x =
     (case py_index img y of Inl e \<Rightarrow> Inl e | Inr row \<Rightarrow> py_index row x)"

text \<open>The data model's rectangular grid: every row has the width of the first.\<close>

definition rectangular :: "image \<Rightarrow> bool" where
  "rectangular img = list_all (\<lambda>row. int (length row) = image_width img) img"

section \<open>Coordinate conversion\<close>

text \<open>\<^verbatim>\<open>ImageScanner._mm_to_pixels\<close>: \<^verbatim>\<open>int(mm * dpi / 25.4)\<close>\<close>

definition mm_to_pixels :: "real \<Rightarrow> int \<Rightarrow> int" where
  "mm_to_pixels mm dpi = py_int (mm * real_of_int dpi / 25.4)"

text \<open>
  \<^verbatim>\<open>TestImageGenerator\<close>: the constructor stores the canvas size and fixes
  \<^verbatim>\<open>self.dpi = 300\<close>; its \<^verbatim>\<open>mm_to_pixels\<close> reads that field.
\<close>

record generator =
  gen_width :: int
  gen_height :: int
  gen_dpi :: int

definition new_generator :: "int \<Rightarrow> int \<Rightarrow> generator" where
  "new_generator width height = \<lparr>gen_width = width, gen_height = height, gen_dpi = 300\<rparr>"

definition gen_mm_to_pixels :: "generator \<Rightarrow> real \<Rightarrow> int" where
  "gen_mm_to_pixels self mm = py_int (mm * real_of_int (gen_dpi self) / 25.4)"

section \<open>Bubble classifier\<close>

text \<open>
  The counting loops of \<^verbatim>\<open>detect_bubble_fill\<close> and \<^verbatim>\<open>_is_dark_circle\<close> have one shape:
  \<^verbatim>\<open>
  for dy in range(-rad, rad + 1):
      for dx in range(-rad, rad + 1):
          if <inside dx dy>:
              x = cx + dx; y = cy + dy
              if 0 <= x < width and 0 <= y < height:
                  total += 1
                  if <hit image[y][x]>: hits += 1
  \<close>
  The state is the pair \<open>(hits, total)\<close>.
\<close>

definition count_body ::
  "image \<Rightarrow> int \<Rightarrow> int \<Rightarrow> (int \<Rightarrow> int \<Rightarrow> bool) \<Rightarrow> (int \<Rightarrow> bool) \<Rightarrow> int \<Rightarrow> int \<Rightarrow>
   int \<times> int \<Rightarrow> py_error + int \<times> int" where
  "count_body img cx cy inside hit dy dx s =
     (if inside dx dy then
        (let x = cx + dx; y = cy + dy in
         if 0 \<le> x \<and> x < image_width img \<and> 0 \<le> y \<and> y < image_height img then
           (case read_pixel img y x of
              Inl e \<Rightarrow> Inl e
            | Inr v \<Rightarrow> Inr (if hit v then fst s + 1 else fst s, snd s + 1))
         else Inr s)
      else Inr s)"

definition count_region ::
  "image \<Rightarrow> int \<Rightarrow> int \<Rightarrow> int \<Rightarrow> (int \<Rightarrow> int \<Rightarrow> bool) \<Rightarrow> (int \<Rightarrow> bool) \<Rightarrow> py_error + int \<times> int" where
  "count_region img cx cy rad inside hit =
     for_each (py_range (- rad) (rad + 1))
       (\<lambda>dy. for_each (py_range (- rad) (rad + 1)) (count_body img cx cy inside hit dy))
       (0, 0)"

text \<open>
  \<^verbatim>\<open>ImageScanner.detect_bubble_fill(image, cx, cy, radius, threshold=0.3)\<close>.
  Both confidence branches divide by \<^verbatim>\<open>threshold\<close>, which raises when it is zero.
\<close>

definition detect_bubble_fill ::
  "image \<Rightarrow> int \<Rightarrow> int \<Rightarrow> int \<Rightarrow> real \<Rightarrow> py_error + bool \<times> real" where
  "detect_bubble_fill img cx cy radius threshold =
     (if cx < 0 \<or> cy < 0 \<or> cx \<ge> image_width img \<or> cy \<ge> image_height img then
        Inr (False, 0)
      else
        (let check_radius = max 1 (radius - 2) in
         case count_region img cx cy check_radius
                (\<lambda>dx dy. dx * dx + dy * dy \<le> check_radius * check_radius) (\<lambda>v. v < 128) of
           Inl e \<Rightarrow> Inl e
         | Inr (dark_count, total_count) \<Rightarrow>
             if total_count = 0 then Inr (False, 0)
             else
               (let fill_ratio = real_of_int dark_count / real_of_int total_count;
                    is_filled = (fill_ratio \<ge> threshold)
                in if threshold = 0 then Inl ZeroDivisionError
                   else if is_filled then Inr (is_filled, min 0.99 (fill_ratio / threshold))
                   else Inr (is_filled, min 0.99 (1 - fill_ratio / threshold)))))"

section \<open>Template layout and scan result\<close>

text \<open>
  The layout is a JSON object. A key the code reads with \<^verbatim>\<open>d[k]\<close> is a field; a key it
  reads with \<^verbatim>\<open>.get\<close> or tests with \<^verbatim>\<open>in\<close>, and a key that the repository's own
  layouts leave out, is an optional field (\<open>None\<close> when absent).
\<close>

record registration_mark =
  mark_x_mm :: real
  mark_y_mm :: real
  mark_size_mm :: real

record answer_field =
  field_label :: string
  field_x_mm :: real
  field_y_mm :: real
  field_type :: "string option"
  field_radius_mm :: "real option"

record box_mm =
  box_x_mm :: real
  box_y_mm :: real
  box_width_mm :: real
  box_height_mm :: real

record question_layout =
  lq_question_id :: string
  lq_type :: string
  lq_question_number :: "int option"
  lq_answer_region :: "box_mm option"
  lq_answer_fields :: "answer_field list option"
  lq_ocr_region :: "box_mm option"

record template_layout =
  page_dpi :: int
  registration_marks :: "registration_mark list option"
  questions :: "question_layout list"

record answer =
  question_id :: string
  question_number :: int
  question_type :: string
  extracted_answer :: "string option"
  confidence :: real
  extraction_method :: string
  flags :: "string list option"

record detected_mark =
  expected_x :: int
  expected_y :: int
  detected_x :: "int option"
  detected_y :: "int option"
  mark_confidence :: real

record rectification =
  markers_detected :: int
  markers_expected :: int
  rectification_applied :: bool

record quality_metrics =
  overall_confidence :: real
  low_confidence_count :: int
  flags_count :: int

text \<open>
  \<^verbatim>\<open>round(x, 3)\<close>: to the nearest multiple of 0.001, a tie going to the even one.
\<close>

definition py_round :: "real \<Rightarrow> int" where
  "py_round x =
     (let f = \<lfloor>x\<rfloor>; d = x - real_of_int f
      in if d < 1 / 2 then f else if 1 / 2 < d then f + 1 else if even f then f else f + 1)"

definition py_round3 :: "real \<Rightarrow> real" where
  "py_round3 x = real_of_int (py_round (x * 1000)) / 1000"

section \<open>Registration locator\<close>

text \<open>
  \<^verbatim>\<open>ImageScanner._is_dark_circle(image, cx, cy, radius)\<close>: zero near the border, else
  the weighted sum of the dark ratio of the disk and the white ratio of the ring up to
  \<^verbatim>\<open>int(radius * 1.5)\<close>.
\<close>

definition is_dark_circle :: "image \<Rightarrow> int \<Rightarrow> int \<Rightarrow> int \<Rightarrow> py_error + real" where
  "is_dark_circle img cx cy radius =
     (if cx < radius \<or> cy < radius \<or> cx \<ge> image_width img - radius
         \<or> cy \<ge> image_height img - radius then Inr 0
      else
        case count_region img cx cy radius
               (\<lambda>dx dy. dx * dx + dy * dy \<le> radius * radius) (\<lambda>v. v < 128) of
          Inl e \<Rightarrow> Inl e
        | Inr (dark_count, total_count) \<Rightarrow>
            if total_count = 0 then Inr 0
            else
              (let dark_ratio = real_of_int dark_count / real_of_int total_count;
                   outer_radius = py_int (real_of_int radius * 1.5)
               in case count_region img cx cy outer_radius
                         (\<lambda>dx dy. radius * radius < dx * dx + dy * dy
                                  \<and> dx * dx + dy * dy \<le> outer_radius * outer_radius)
                         (\<lambda>v. v > 200) of
                    Inl e \<Rightarrow> Inl e
                  | Inr (white_count, outer_count) \<Rightarrow>
                      (let white_ratio =
                             (if outer_count > 0
                              then real_of_int white_count / real_of_int outer_count else 0)
                       in Inr (dark_ratio * 0.7 + white_ratio * 0.3))))"

text \<open>
  \<^verbatim>\<open>range(-search_radius, search_radius + 1, 5)\<close> with \<^verbatim>\<open>search_radius = 20\<close>.
\<close>

definition py_range_step :: "int \<Rightarrow> int \<Rightarrow> int \<Rightarrow> int list" where
  "py_range_step a b step = map (\<lambda>i. a + step * i) [0..(b - a - 1) div step]"

definition search_offsets :: "int list" where
  "search_offsets = py_range_step (- 20) (20 + 1) 5"

text \<open>
  The search loop of \<^verbatim>\<open>detect_registration_marks\<close>; the state is
  \<open>(best_match, best_score)\<close>, a match being \<open>(x, y, score)\<close>.
\<close>

definition search_body ::
  "image \<Rightarrow> int \<Rightarrow> int \<Rightarrow> int \<Rightarrow> int \<Rightarrow> int \<Rightarrow> (int \<times> int \<times> real) option \<times> real \<Rightarrow>
   py_error + (int \<times> int \<times> real) option \<times> real" where
  "search_body img exp_x exp_y exp_radius dy dx s =
     (let test_x = exp_x + dx; test_y = exp_y + dy
      in case is_dark_circle img test_x test_y exp_radius of
           Inl e \<Rightarrow> Inl e
         | Inr score \<Rightarrow>
             if score > snd s then Inr (Some (test_x, test_y, score), score) else Inr s)"

definition locate_mark :: "image \<Rightarrow> int \<Rightarrow> registration_mark \<Rightarrow> py_error + detected_mark" where
  "locate_mark img dpi mark =
     (let exp_x = mm_to_pixels (mark_x_mm mark) dpi;
          exp_y = mm_to_pixels (mark_y_mm mark) dpi;
          exp_radius = mm_to_pixels (mark_size_mm mark) dpi
      in case for_each search_offsets
                (\<lambda>dy. for_each search_offsets
                         (search_body img exp_x exp_y exp_radius dy))
                (None, 0) of
           Inl e \<Rightarrow> Inl e
         | Inr (best_match, best_score) \<Rightarrow>
             (case best_match of
                Some (x, y, score) \<Rightarrow>
                  if score > 0.7 then
                    Inr \<lparr>expected_x = exp_x, expected_y = exp_y,
                         detected_x = Some x, detected_y = Some y, mark_confidence = score\<rparr>
                  else
                    Inr \<lparr>expected_x = exp_x, expected_y = exp_y,
                         detected_x = None, detected_y = None, mark_confidence = 0\<rparr>
              | None \<Rightarrow>
                  Inr \<lparr>expected_x = exp_x, expected_y = exp_y,
                       detected_x = None, detected_y = None, mark_confidence = 0\<rparr>))"

text \<open>\<^verbatim>\<open>sum(1 for m in detected_marks if m["detected_x"] is not None)\<close>\<close>

definition count_detected :: "detected_mark list \<Rightarrow> int" where
  "count_detected detected_marks = int (length (filter (\<lambda>m. detected_x m \<noteq> None) detected_marks))"

definition detect_registration_marks ::
  "image \<Rightarrow> registration_mark list \<Rightarrow> int \<Rightarrow> py_error + detected_mark list \<times> bool" where
  "detect_registration_marks img expected_marks dpi =
     (case for_each expected_marks
             (\<lambda>mark detected_marks.
                case locate_mark img dpi mark of
                  Inl e \<Rightarrow> Inl e
                | Inr m \<Rightarrow> Inr (detected_marks @ [m]))
             [] of
        Inl e \<Rightarrow> Inl e
      | Inr detected_marks \<Rightarrow> Inr (detected_marks, count_detected detected_marks \<ge> 3))"

section \<open>Extraction orchestrator\<close>

text \<open>
  The bubble loop of \<^verbatim>\<open>extract_answers\<close>; the state is
  \<open>(extracted_answer, max_confidence, filled_bubbles)\<close>.
\<close>

definition bubble_body ::
  "image \<Rightarrow> int \<Rightarrow> answer_field \<Rightarrow> string option \<times> real \<times> (string \<times> real) list \<Rightarrow>
   py_error + string option \<times> real \<times> (string \<times> real) list" where
  "bubble_body img dpi field s =
     (let fx = mm_to_pixels (field_x_mm field) dpi;
          fy = mm_to_pixels (field_y_mm field) dpi;
          radius = mm_to_pixels (case field_radius_mm field of None \<Rightarrow> 3 | Some r \<Rightarrow> r) dpi
      in case detect_bubble_fill img fx fy radius 0.3 of
           Inl e \<Rightarrow> Inl e
         | Inr (is_filled, conf) \<Rightarrow>
             (case s of (extracted, max_confidence, filled_bubbles) \<Rightarrow>
                if is_filled then
                  (if conf > max_confidence
                   then Inr (Some (field_label field), conf,
                             filled_bubbles @ [(field_label field, conf)])
                   else Inr (extracted, max_confidence,
                             filled_bubbles @ [(field_label field, conf)]))
                else Inr s))"

definition extract_choice ::
  "image \<Rightarrow> int \<Rightarrow> question_layout \<Rightarrow> answer_field list \<Rightarrow> py_error + answer" where
  "extract_choice img dpi q_layout answer_fields =
     (case for_each answer_fields (bubble_body img dpi) (None, 0, []) of
        Inl e \<Rightarrow> Inl e
      | Inr (extracted, max_confidence, filled_bubbles) \<Rightarrow>
          (let q_num = (case lq_question_number q_layout of None \<Rightarrow> 0 | Some n \<Rightarrow> n);
               fl = (if length filled_bubbles > 1 then [''multiple_bubbles_filled'']
                     else if length filled_bubbles = 0 then [''no_bubble_filled''] else []);
               max_confidence' =
                    (if length filled_bubbles > 1 then max_confidence * 0.5
                     else if length filled_bubbles = 0 then 0 else max_confidence)
           in Inr \<lparr>question_id = lq_question_id q_layout, question_number = q_num,
                   question_type = lq_type q_layout, extracted_answer = extracted,
                   confidence = py_round3 max_confidence',
                   extraction_method = ''bubble_detection'',
                   flags = (if fl \<noteq> [] then Some fl else None)\<rparr>))"

text \<open>
  The ink-density loop over the OCR rectangle:
  \<^verbatim>\<open>
  for y in range(oy, min(oy + oh, len(image))):
      for x in range(ox, min(ox + ow, len(image[0]) if len(image) > 0 else 0)):
          if 0 <= y < len(image) and 0 <= x < len(image[0]):
              total_count += 1
              if image[y][x] < 200: dark_count += 1
  \<close>
\<close>

definition ocr_body :: "image \<Rightarrow> int \<Rightarrow> int \<Rightarrow> int \<times> int \<Rightarrow> py_error + int \<times> int" where
  "ocr_body img y x s =
     (if 0 \<le> y \<and> y < image_height img \<and> 0 \<le> x \<and> x < image_width img then
        (case read_pixel img y x of
           Inl e \<Rightarrow> Inl e
         | Inr v \<Rightarrow> Inr (if v < 200 then fst s + 1 else fst s, snd s + 1))
      else Inr s)"

definition extract_ocr :: "image \<Rightarrow> int \<Rightarrow> question_layout \<Rightarrow> box_mm \<Rightarrow> py_error + answer" where
  "extract_ocr img dpi q_layout ocr =
     (let ox = mm_to_pixels (box_x_mm ocr) dpi;
          oy = mm_to_pixels (box_y_mm ocr) dpi;
          ow = mm_to_pixels (box_width_mm ocr) dpi;
          oh = mm_to_pixels (box_height_mm ocr) dpi
      in case for_each (py_range oy (min (oy + oh) (image_height img)))
                (\<lambda>y. for_each (py_range ox (min (ox + ow) (image_width img))) (ocr_body img y))
                (0, 0) of
           Inl e \<Rightarrow> Inl e
         | Inr (dark_count, total_count) \<Rightarrow>
             (let density = (if total_count > 0
                             then real_of_int dark_count / real_of_int total_count else 0);
                  q_num = (case lq_question_number q_layout of None \<Rightarrow> 0 | Some n \<Rightarrow> n)
              in Inr \<lparr>question_id = lq_question_id q_layout, question_number = q_num,
                      question_type = lq_type q_layout,
                      extracted_answer =
                        Some (if density > 0.05 then ''[OCR text detected]'' else []),
                      confidence =
                        py_round3 (if density > 0.05 then min 0.85 (density * 5) else 0.90),
                      extraction_method = ''ocr_simulation'',
                      flags = Some (if density > 0.05 then [''requires_manual_review''] else [])\<rparr>))"

text \<open>
  One iteration of \<^verbatim>\<open>for q_layout in template_layout["questions"]\<close>: a record of a choice
  type with answer fields, or of a free-text type with an OCR region, appends one answer;
  any other record falls through both branches and appends nothing.
\<close>

definition extract_question ::
  "image \<Rightarrow> int \<Rightarrow> question_layout \<Rightarrow> answer list \<Rightarrow> py_error + answer list" where
  "extract_question img dpi q_layout answers =
     (if lq_type q_layout \<in> set [''multiple_choice'', ''true_false'']
         \<and> lq_answer_fields q_layout \<noteq> None then
        (case extract_choice img dpi q_layout (the (lq_answer_fields q_layout)) of
           Inl e \<Rightarrow> Inl e
         | Inr a \<Rightarrow> Inr (answers @ [a]))
      else if lq_type q_layout \<in> set [''short_answer'', ''essay'']
         \<and> lq_ocr_region q_layout \<noteq> None then
        (case extract_ocr img dpi q_layout (the (lq_ocr_region q_layout)) of
           Inl e \<Rightarrow> Inl e
         | Inr a \<Rightarrow> Inr (answers @ [a]))
      else Inr answers)"

definition answer_flags :: "answer \<Rightarrow> string list" where
  "answer_flags a = (case flags a of None \<Rightarrow> [] | Some fl \<Rightarrow> fl)"

definition build_quality_metrics :: "answer list \<Rightarrow> quality_metrics" where
  "build_quality_metrics answers =
     \<lparr>overall_confidence =
        (if answers \<noteq> []
         then py_round3 (sum_list (map confidence answers) / real (length answers)) else 0),
      low_confidence_count = int (length (filter (\<lambda>a. confidence a < 0.7) answers)),
      flags_count = int (sum_list (map (\<lambda>a. length (answer_flags a)) answers))\<rparr>"

text \<open>\<^verbatim>\<open>ImageScanner.extract_answers(image, template_layout)\<close>\<close>

definition extract_answers ::
  "image \<Rightarrow> template_layout \<Rightarrow> py_error + answer list \<times> rectification \<times> quality_metrics" where
  "extract_answers img template_layout =
     (let dpi = page_dpi template_layout;
          marks = (case registration_marks template_layout of None \<Rightarrow> [] | Some ms \<Rightarrow> ms)
      in case detect_registration_marks img marks dpi of
           Inl e \<Rightarrow> Inl e
         | Inr (detected_marks, rect_success) \<Rightarrow>
             (case for_each (questions template_layout) (extract_question img dpi) [] of
                Inl e \<Rightarrow> Inl e
              | Inr answers \<Rightarrow>
                  Inr (answers,
                       \<lparr>markers_detected = count_detected detected_marks,
                        markers_expected = int (length marks),
                        rectification_applied = rect_success\<rparr>,
                       build_quality_metrics answers)))"

section \<open>Pixel sets\<close>

text \<open>
  The words the properties are stated in: the pixel at a position \<open>(x, y)\<close> inside the
  image, the positions inside the image that a counting loop visits, the disk of radius
  \<open>r\<close> around a centre clipped to the image, and the fraction of dark pixels of a set.
\<close>

definition pixel :: "image \<Rightarrow> int \<times> int \<Rightarrow> int" where
  "pixel img p = img ! nat (snd p) ! nat (fst p)"

definition region ::
  "image \<Rightarrow> int \<Rightarrow> int \<Rightarrow> int \<Rightarrow> (int \<Rightarrow> int \<Rightarrow> bool) \<Rightarrow> (int \<times> int) set" where
  "region img cx cy rad inside =
     Set.filter (\<lambda>(x, y). \<bar>x - cx\<bar> \<le> rad \<and> \<bar>y - cy\<bar> \<le> rad \<and> inside (x - cx) (y - cy))
       ({0..<image_width img} \<times> {0..<image_height img})"

definition interior_disk :: "image \<Rightarrow> int \<Rightarrow> int \<Rightarrow> int \<Rightarrow> (int \<times> int) set" where
  "interior_disk img cx cy r =
     Set.filter (\<lambda>(x, y). (x - cx) * (x - cx) + (y - cy) * (y - cy) \<le> r * r)
       ({0..<image_width img} \<times> {0..<image_height img})"

definition dark_fraction :: "image \<Rightarrow> (int \<times> int) set \<Rightarrow> real" where
  "dark_fraction img S = real (card (Set.filter (\<lambda>p. pixel img p < 128) S)) / real (card S)"

text \<open>The test of a counting loop on an offset \<open>(dy, dx)\<close>: inside the shape and the image.\<close>

definition count_step ::
  "image \<Rightarrow> int \<Rightarrow> int \<Rightarrow> (int \<Rightarrow> int \<Rightarrow> bool) \<Rightarrow> int \<times> int \<Rightarrow> bool" where
  "count_step img cx cy inside =
     (\<lambda>(dy, dx). inside dx dy \<and> 0 \<le> cx + dx \<and> cx + dx < image_width img
        \<and> 0 \<le> cy + dy \<and> cy + dy < image_height img)"

section \<open>Canvas\<close>

text \<open>
  \<^verbatim>\<open>xs[i] = v\<close>, with the index rule of \<open>py_index\<close>, and \<^verbatim>\<open>image[y][x] = value\<close>: the
  row is fetched, updated and is still the row at that position. Every canvas here is
  built by a nested comprehension, so no two rows are the same object.
\<close>

definition py_store :: "'a list \<Rightarrow> int \<Rightarrow> 'a \<Rightarrow> py_error + 'a list" where
  "py_store xs i v =
     (if 0 \<le> i \<and> i < int (length xs) then Inr (xs[nat i := v])
      else if i < 0 \<and> - int (length xs) \<le> i then Inr (xs[nat (int (length xs) + i) := v])
      else Inl IndexError)"

definition write_pixel :: "image \<Rightarrow> int \<Rightarrow> int \<Rightarrow> int \<Rightarrow> py_error + image" where
  "write_pixel img y x v =
     (case py_index img y of
        Inl e \<Rightarrow> Inl e
      | Inr row \<Rightarrow> (case py_store row x v of Inl e \<Rightarrow> Inl e | Inr row' \<Rightarrow> py_store img y row'))"

text \<open>\<^verbatim>\<open>[[255 for _ in range(width)] for _ in range(height)]\<close>\<close>

definition white_canvas :: "int \<Rightarrow> int \<Rightarrow> image" where
  "white_canvas width height = replicate (nat height) (replicate (nat width) 255)"

definition create_blank_test :: "generator \<Rightarrow> image" where
  "create_blank_test self = white_canvas (gen_width self) (gen_height self)"

text \<open>\<^verbatim>\<open>TestImageGenerator.draw_circle(image, x, y, radius, filled, value)\<close>\<close>

definition circle_body ::
  "generator \<Rightarrow> int \<Rightarrow> int \<Rightarrow> int \<Rightarrow> bool \<Rightarrow> int \<Rightarrow> int \<Rightarrow> int \<Rightarrow> image \<Rightarrow> py_error + image" where
  "circle_body self x y radius filled v dy dx img =
     (if dx * dx + dy * dy \<le> radius * radius then
        (let px = x + dx; py = y + dy in
         if 0 \<le> px \<and> px < gen_width self \<and> 0 \<le> py \<and> py < gen_height self then
           (if filled \<or> dx * dx + dy * dy \<ge> (radius - 2) * (radius - 2)
            then write_pixel img py px v else Inr img)
         else Inr img)
      else Inr img)"

definition draw_circle ::
  "generator \<Rightarrow> image \<Rightarrow> int \<Rightarrow> int \<Rightarrow> int \<Rightarrow> bool \<Rightarrow> int \<Rightarrow> py_error + image" where
  "draw_circle self img x y radius filled v =
     for_each (py_range (- radius) (radius + 1))
       (\<lambda>dy. for_each (py_range (- radius) (radius + 1))
                (circle_body self x y radius filled v dy))
       img"

text \<open>
  \<^verbatim>\<open>TestImageGenerator.draw_rectangle(image, x, y, width, height, value)\<close>: the top and
  bottom edges, then the left and right edges.
\<close>

definition rect_rows_body ::
  "generator \<Rightarrow> int \<Rightarrow> int \<Rightarrow> int \<Rightarrow> int \<Rightarrow> int \<Rightarrow> image \<Rightarrow> py_error + image" where
  "rect_rows_body self x y height v dx img =
     (let px = x + dx in
      if 0 \<le> px \<and> px < gen_width self then
        (case (if 0 \<le> y \<and> y < gen_height self then write_pixel img y px v else Inr img) of
           Inl e \<Rightarrow> Inl e
         | Inr img1 \<Rightarrow>
             if 0 \<le> y + height \<and> y + height < gen_height self
             then write_pixel img1 (y + height) px v else Inr img1)
      else Inr img)"

definition rect_cols_body ::
  "generator \<Rightarrow> int \<Rightarrow> int \<Rightarrow> int \<Rightarrow> int \<Rightarrow> int \<Rightarrow> image \<Rightarrow> py_error + image" where
  "rect_cols_body self x y width v dy img =
     (let py = y + dy in
      if 0 \<le> py \<and> py < gen_height self then
        (case (if 0 \<le> x \<and> x < gen_width self then write_pixel img py x v else Inr img) of
           Inl e \<Rightarrow> Inl e
         | Inr img1 \<Rightarrow>
             if 0 \<le> x + width \<and> x + width < gen_width self
             then write_pixel img1 py (x + width) v else Inr img1)
      else Inr img)"

definition draw_rectangle ::
  "generator \<Rightarrow> image \<Rightarrow> int \<Rightarrow> int \<Rightarrow> int \<Rightarrow> int \<Rightarrow> int \<Rightarrow> py_error + image" where
  "draw_rectangle self img x y width height v =
     (case for_each (py_range 0 width) (rect_rows_body self x y height v) img of
        Inl e \<Rightarrow> Inl e
      | Inr img1 \<Rightarrow> for_each (py_range 0 height) (rect_cols_body self x y width v) img1)"

text \<open>\<^verbatim>\<open>TestImageGenerator.fill_rectangle(image, x, y, width, height, value)\<close>\<close>

definition fill_body ::
  "generator \<Rightarrow> int \<Rightarrow> int \<Rightarrow> int \<Rightarrow> int \<Rightarrow> int \<Rightarrow> image \<Rightarrow> py_error + image" where
  "fill_body self x y v dy dx img =
     (let px = x + dx; py = y + dy in
      if 0 \<le> px \<and> px < gen_width self \<and> 0 \<le> py \<and> py < gen_height self
      then write_pixel img py px v else Inr img)"

definition fill_rectangle ::
  "generator \<Rightarrow> image \<Rightarrow> int \<Rightarrow> int \<Rightarrow> int \<Rightarrow> int \<Rightarrow> int \<Rightarrow> py_error + image" where
  "fill_rectangle self img x y width height v =
     for_each (py_range 0 height)
       (\<lambda>dy. for_each (py_range 0 width) (fill_body self x y v dy))
       img"

section \<open>Random source\<close>

text \<open>
  The module-level generator of \<^verbatim>\<open>random\<close> is a hidden state. Its algorithm is not
  modelled: the operations the code calls are the fields of a record, each taking the
  state and returning the draw with the next state. \<open>rs_seed\<close> is the state after
  \<^verbatim>\<open>random.seed(n)\<close>; \<open>rs_choice\<close> is \<^verbatim>\<open>random.choice\<close> on a list of labels.
\<close>

record 'g random_source =
  rs_seed :: "int \<Rightarrow> 'g"
  rs_random :: "'g \<Rightarrow> real \<times> 'g"
  rs_randint :: "int \<Rightarrow> int \<Rightarrow> 'g \<Rightarrow> int \<times> 'g"
  rs_choice :: "string list \<Rightarrow> 'g \<Rightarrow> string \<times> 'g"

section \<open>Distortion engine\<close>

text \<open>
  \<^verbatim>\<open>TestImageGenerator._add_noise(image, intensity)\<close>; the state of the loops is the image
  and the generator state.
\<close>

definition noise_body ::
  "'g random_source \<Rightarrow> int \<Rightarrow> int \<Rightarrow> int \<Rightarrow> image \<times> 'g \<Rightarrow> py_error + image \<times> 'g" where
  "noise_body rs intensity y x s =
     (case rs_random rs (snd s) of
        (u, g1) \<Rightarrow>
          if u < 0.1 then
            (case rs_randint rs (- intensity) intensity g1 of
               (noise, g2) \<Rightarrow>
                 (case read_pixel (fst s) y x of
                    Inl e \<Rightarrow> Inl e
                  | Inr p \<Rightarrow>
                      (case write_pixel (fst s) y x (max 0 (min 255 (p + noise))) of
                         Inl e \<Rightarrow> Inl e
                       | Inr img' \<Rightarrow> Inr (img', g2))))
          else Inr (fst s, g1))"

definition add_noise ::
  "'g random_source \<Rightarrow> generator \<Rightarrow> image \<Rightarrow> int \<Rightarrow> 'g \<Rightarrow> py_error + image \<times> 'g" where
  "add_noise rs self img intensity g =
     for_each (py_range_step 0 (gen_height self) 5)
       (\<lambda>y. for_each (py_range_step 0 (gen_width self) 5) (noise_body rs intensity y))
       (img, g)"

text \<open>
  \<^verbatim>\<open>TestImageGenerator._apply_rotation(image, angle)\<close>: nearest-neighbour inverse mapping
  about the image centre, onto a fresh white image.
\<close>

definition rotation_body ::
  "image \<Rightarrow> real \<Rightarrow> int \<Rightarrow> int \<Rightarrow> image \<Rightarrow> py_error + image" where
  "rotation_body img theta y x rotated =
     (let width = image_width img; height = image_height img;
          cx = real_of_int width / 2; cy = real_of_int height / 2;
          tx = real_of_int x - cx; ty = real_of_int y - cy;
          rx = tx * cos theta - ty * sin theta;
          ry = tx * sin theta + ty * cos theta;
          src_x = py_int (rx + cx); src_y = py_int (ry + cy)
      in if 0 \<le> src_x \<and> src_x < width \<and> 0 \<le> src_y \<and> src_y < height then
           (case read_pixel img src_y src_x of
              Inl e \<Rightarrow> Inl e
            | Inr p \<Rightarrow> write_pixel rotated y x p)
         else Inr rotated)"

definition apply_rotation :: "image \<Rightarrow> real \<Rightarrow> py_error + image" where
  "apply_rotation img angle =
     (let theta = - angle * pi / 180 in
      for_each (py_range 0 (image_height img))
        (\<lambda>y. for_each (py_range 0 (image_width img)) (rotation_body img theta y))
        (white_canvas (image_width img) (image_height img)))"

text \<open>
  \<^verbatim>\<open>TestImageGenerator._apply_skew(image, skew)\<close>: row \<open>y\<close> is shifted by
  \<^verbatim>\<open>int(skew * (y - height / 2))\<close> columns, onto a fresh white image.
\<close>

definition skew_shift :: "image \<Rightarrow> real \<Rightarrow> int \<Rightarrow> int" where
  "skew_shift img skew y = py_int (skew * (real_of_int y - real_of_int (image_height img) / 2))"

definition skew_body :: "image \<Rightarrow> real \<Rightarrow> int \<Rightarrow> int \<Rightarrow> image \<Rightarrow> py_error + image" where
  "skew_body img skew y x skewed =
     (let src_x = x - skew_shift img skew y in
      if 0 \<le> src_x \<and> src_x < image_width img then
        (case read_pixel img y src_x of
           Inl e \<Rightarrow> Inl e
         | Inr p \<Rightarrow> write_pixel skewed y x p)
      else Inr skewed)"

definition apply_skew :: "image \<Rightarrow> real \<Rightarrow> py_error + image" where
  "apply_skew img skew =
     for_each (py_range 0 (image_height img))
       (\<lambda>y. for_each (py_range 0 (image_width img)) (skew_body img skew y))
       (white_canvas (image_width img) (image_height img))"

text \<open>
  \<^verbatim>\<open>TestImageGenerator.apply_distortions(image, rotation, skew, noise_level)\<close>: each stage
  runs only past its threshold.
\<close>

definition apply_distortions ::
  "'g random_source \<Rightarrow> generator \<Rightarrow> image \<Rightarrow> real \<Rightarrow> real \<Rightarrow> int \<Rightarrow> 'g \<Rightarrow>
   py_error + image \<times> 'g" where
  "apply_distortions rs self img rotation skew noise_level g =
     (case (if \<bar>rotation\<bar> > 0.1 then apply_rotation img rotation else Inr img) of
        Inl e \<Rightarrow> Inl e
      | Inr img1 \<Rightarrow>
          (case (if \<bar>skew\<bar> > 0.001 then apply_skew img1 skew else Inr img1) of
             Inl e \<Rightarrow> Inl e
           | Inr img2 \<Rightarrow>
               if noise_level > 0 then add_noise rs self img2 noise_level g
               else Inr (img2, g)))"

section \<open>Sparse image files\<close>

text \<open>
  The object that \<^verbatim>\<open>save_compact\<close> hands to \<^verbatim>\<open>json.dump\<close> and that \<^verbatim>\<open>load_image\<close> gets
  back from \<^verbatim>\<open>json.load\<close>: integers and lists of integers, which JSON returns as
  written. Each pixel is the triple \<open>(x, y, intensity)\<close>.
\<close>

record sparse_image =
  sparse_width :: int
  sparse_height :: int
  sparse_format :: string
  sparse_pixels :: "(int \<times> int \<times> int) list"

text \<open>\<^verbatim>\<open>TestImageGenerator.save_compact(image, filename)\<close>: the object written.\<close>

definition compact_body ::
  "image \<Rightarrow> int \<Rightarrow> int \<Rightarrow> (int \<times> int \<times> int) list \<Rightarrow> py_error + (int \<times> int \<times> int) list" where
  "compact_body img y x pixels =
     (case read_pixel img y x of
        Inl e \<Rightarrow> Inl e
      | Inr p \<Rightarrow> if p < 255 then Inr (pixels @ [(x, y, p)]) else Inr pixels)"

definition save_compact :: "generator \<Rightarrow> image \<Rightarrow> py_error + sparse_image" where
  "save_compact self img =
     (case for_each (py_range 0 (gen_height self))
             (\<lambda>y. for_each (py_range 0 (gen_width self)) (compact_body img y))
             [] of
        Inl e \<Rightarrow> Inl e
      | Inr pixels \<Rightarrow>
          Inr \<lparr>sparse_width = gen_width self, sparse_height = gen_height self,
               sparse_format = ''sparse'', sparse_pixels = pixels\<rparr>)"

text \<open>
  \<^verbatim>\<open>ImageScanner.load_image\<close> on a \<^verbatim>\<open>.json\<close> path, from the object read: a white image
  of the stored size, then the stored pixels one by one.
\<close>

definition load_image :: "sparse_image \<Rightarrow> py_error + image" where
  "load_image data =
     for_each (sparse_pixels data)
       (\<lambda>pixel img. case pixel of (x, y, v) \<Rightarrow> write_pixel img y x v)
       (white_canvas (sparse_width data) (sparse_height data))"

section \<open>Image synthesizer\<close>

text \<open>
  \<^verbatim>\<open>TestImageGenerator.generate_test_image\<close>. Its parameters \<^verbatim>\<open>student_id\<close>,
  \<^verbatim>\<open>version_id\<close> and \<^verbatim>\<open>question_order\<close> are never read and are left out; \<^verbatim>\<open>answers\<close>
  is the dictionary from question id to the student's answer. The body of the loop over
  the answer fields of one question:
\<close>

definition draw_field ::
  "generator \<Rightarrow> (string \<rightharpoonup> string) \<Rightarrow> string \<Rightarrow> answer_field \<Rightarrow> image \<Rightarrow> py_error + image" where
  "draw_field self answers q_id field img =
     (let fx = gen_mm_to_pixels self (field_x_mm field);
          fy = gen_mm_to_pixels self (field_y_mm field)
      in case field_type field of
           None \<Rightarrow> Inl KeyError
         | Some ft \<Rightarrow>
             if ft = ''circle'' then
               (let radius = gen_mm_to_pixels self
                               (case field_radius_mm field of None \<Rightarrow> 3 | Some r \<Rightarrow> r)
                in case draw_circle self img fx fy radius False 0 of
                     Inl e \<Rightarrow> Inl e
                   | Inr img1 \<Rightarrow>
                       if answers q_id = Some (field_label field)
                       then draw_circle self img1 fx fy (radius - 1) True 50
                       else Inr img1)
             else Inr img)"

text \<open>
  The body of the loop over the questions: the answer region must be present; a record
  with answer fields gets its bubbles, otherwise a record with an OCR region gets its
  box and, when the student answered, five strokes.
\<close>

definition draw_question ::
  "generator \<Rightarrow> (string \<rightharpoonup> string) \<Rightarrow> question_layout \<Rightarrow> image \<Rightarrow> py_error + image" where
  "draw_question self answers q_layout img =
     (case lq_answer_region q_layout of
        None \<Rightarrow> Inl KeyError
      | Some answer_region \<Rightarrow>
          (case lq_answer_fields q_layout of
             Some answer_fields \<Rightarrow>
               for_each answer_fields (draw_field self answers (lq_question_id q_layout)) img
           | None \<Rightarrow>
               (case lq_ocr_region q_layout of
                  None \<Rightarrow> Inr img
                | Some ocr \<Rightarrow>
                    (let ox = gen_mm_to_pixels self (box_x_mm ocr);
                         oy = gen_mm_to_pixels self (box_y_mm ocr);
                         ow = gen_mm_to_pixels self (box_width_mm ocr);
                         oh = gen_mm_to_pixels self (box_height_mm ocr)
                     in case draw_rectangle self img ox oy ow oh 0 of
                          Inl e \<Rightarrow> Inl e
                        | Inr img1 \<Rightarrow>
                            if answers (lq_question_id q_layout) \<noteq> None then
                              for_each (py_range 0 5)
                                (\<lambda>i im. fill_rectangle self im (ox + 5 + i * 10) (oy + oh div 2)
                                          8 2 80)
                                img1
                            else Inr img1))))"

definition generate_test_image ::
  "'g random_source \<Rightarrow> generator \<Rightarrow> template_layout \<Rightarrow> (string \<rightharpoonup> string) \<Rightarrow> bool \<Rightarrow> 'g \<Rightarrow>
   py_error + image \<times> 'g" where
  "generate_test_image rs self template_layout answers with_noise g =
     (case registration_marks template_layout of
        None \<Rightarrow> Inl KeyError
      | Some marks \<Rightarrow>
          (case for_each marks
                  (\<lambda>mark img.
                     draw_circle self img (gen_mm_to_pixels self (mark_x_mm mark))
                       (gen_mm_to_pixels self (mark_y_mm mark))
                       (gen_mm_to_pixels self (mark_size_mm mark)) True 0)
                  (create_blank_test self) of
             Inl e \<Rightarrow> Inl e
           | Inr img1 \<Rightarrow>
               (case for_each (questions template_layout) (draw_question self answers) img1 of
                  Inl e \<Rightarrow> Inl e
                | Inr img2 \<Rightarrow>
                    if with_noise then add_noise rs self img2 10 g else Inr (img2, g))))"

section \<open>Question order and the synthesis command\<close>

record order_question =
  oq_question_id :: string
  oq_correct_answer :: string
  oq_options :: "string list option"

record question_order =
  versions :: "(string \<times> order_question list) list"
  student_assignments :: "(string \<times> string) list"

record testgen_args =
  arg_students :: "string list option"
  arg_accuracy :: real
  arg_noise :: int
  arg_rotation :: real
  arg_skew :: real
  arg_format :: string
  arg_seed :: "int option"

text \<open>
  A dictionary read with \<^verbatim>\<open>d[k]\<close>: the pairs are kept in insertion order, since
  \<^verbatim>\<open>main\<close> iterates over the keys of \<^verbatim>\<open>student_assignments\<close>.
\<close>

definition py_lookup :: "('k \<times> 'v) list \<Rightarrow> 'k \<Rightarrow> py_error + 'v" where
  "py_lookup d k = (case map_of d k of None \<Rightarrow> Inl KeyError | Some v \<Rightarrow> Inr v)"

text \<open>
  The answers of one student, \<^verbatim>\<open>main\<close> of \<^verbatim>\<open>testgen.py\<close>: correct with probability
  \<^verbatim>\<open>accuracy\<close>, else a wrong option, the correct answer when there is no wrong option,
  or the text \<^verbatim>\<open>Wrong Answer\<close> when the question lists no options. \<open>oq_options\<close> holds the
  labels of the options.
\<close>

definition choose_answer ::
  "'g random_source \<Rightarrow> real \<Rightarrow> order_question \<Rightarrow> (string \<rightharpoonup> string) \<times> 'g \<Rightarrow>
   (string \<rightharpoonup> string) \<times> 'g" where
  "choose_answer rs accuracy q s =
     (case rs_random rs (snd s) of
        (u, g1) \<Rightarrow>
          if u < accuracy then ((fst s)(oq_question_id q \<mapsto> oq_correct_answer q), g1)
          else
            (case oq_options q of
               None \<Rightarrow> ((fst s)(oq_question_id q \<mapsto> ''Wrong Answer''), g1)
             | Some opts \<Rightarrow>
                 if opts = [] then ((fst s)(oq_question_id q \<mapsto> ''Wrong Answer''), g1)
                 else
                   (let wrong_options = filter (\<lambda>l. l \<noteq> oq_correct_answer q) opts in
                    if wrong_options \<noteq> [] then
                      (case rs_choice rs wrong_options g1 of
                         (w, g2) \<Rightarrow> ((fst s)(oq_question_id q \<mapsto> w), g2))
                    else ((fst s)(oq_question_id q \<mapsto> oq_correct_answer q), g1))))"

datatype image_file = SparseFile sparse_image | PgmFile int int image

text \<open>The body of the loop over the students: the file name parts and the file written.\<close>

definition generate_student ::
  "'g random_source \<Rightarrow> generator \<Rightarrow> testgen_args \<Rightarrow> template_layout \<Rightarrow> question_order \<Rightarrow>
   string \<Rightarrow> (string \<times> string \<times> image_file) list \<times> 'g \<Rightarrow>
   py_error + (string \<times> string \<times> image_file) list \<times> 'g" where
  "generate_student rs self args template_layout order student_id s =
     (case py_lookup (student_assignments order) student_id of
        Inl e \<Rightarrow> Inl e
      | Inr version_id \<Rightarrow>
          (case py_lookup (versions order) version_id of
             Inl e \<Rightarrow> Inl e
           | Inr qs \<Rightarrow>
               (case fold (choose_answer rs (arg_accuracy args)) qs (Map.empty, snd s) of
                  (answers, g1) \<Rightarrow>
                    (case generate_test_image rs self template_layout answers True g1 of
                       Inl e \<Rightarrow> Inl e
                     | Inr (img, g2) \<Rightarrow>
                         (case apply_distortions rs self img (arg_rotation args) (arg_skew args)
                                 (arg_noise args) g2 of
                            Inl e \<Rightarrow> Inl e
                          | Inr (img', g3) \<Rightarrow>
                              if arg_format args = ''pgm'' then
                                Inr (fst s @ [(student_id, version_id,
                                       PgmFile (gen_width self) (gen_height self) img')], g3)
                              else
                                (case save_compact self img' of
                                   Inl e \<Rightarrow> Inl e
                                 | Inr data \<Rightarrow>
                                     Inr (fst s @ [(student_id, version_id, SparseFile data)],
                                          g3)))))))"

text \<open>
  \<^verbatim>\<open>main\<close> of \<^verbatim>\<open>testgen.py\<close>. \<open>ambient\<close> is the state the generator of \<^verbatim>\<open>random\<close> has
  when the process starts (seeded by the system); \<^verbatim>\<open>if args.seed:\<close> reseeds it for a
  seed that is given and not zero.
\<close>

definition testgen_main ::
  "'g random_source \<Rightarrow> testgen_args \<Rightarrow> template_layout \<Rightarrow> question_order \<Rightarrow> 'g \<Rightarrow>
   py_error + (string \<times> string \<times> image_file) list" where
  "testgen_main rs args template_layout order ambient =
     (let g0 = (case arg_seed args of
                  None \<Rightarrow> ambient
                | Some n \<Rightarrow> if n \<noteq> 0 then rs_seed rs n else ambient);
          student_ids = (case arg_students args of
                           None \<Rightarrow> map fst (student_assignments order)
                         | Some ids \<Rightarrow> ids)
      in case for_each student_ids
                (generate_student rs (new_generator 2100 2970) args template_layout order)
                ([], g0) of
           Inl e \<Rightarrow> Inl e
         | Inr (files, g) \<Rightarrow> Inr files)"

section \<open>The extraction command\<close>

text \<open>
  \<^verbatim>\<open>ImageScanner.scan_image\<close> reads the wall clock: \<^verbatim>\<open>time.time()\<close> before loading and
  after extraction, and \<^verbatim>\<open>datetime.utcnow().isoformat()\<close>. The three readings are the
  fields of \<open>clock\<close>.
\<close>

record clock =
  time_start :: real
  time_end :: real
  utc_now_iso :: string

record scan_metadata =
  scan_timestamp :: string
  image_source :: string
  scanner_version :: string
  processing_time_ms :: real

record identification =
  ident_version_id :: string
  ident_student_id :: string
  ident_confidence_version_id :: real
  ident_confidence_student_id :: real

record scan_result =
  result_version :: string
  result_scan_metadata :: scan_metadata
  result_identification :: identification
  result_rectification :: rectification
  result_answers :: "answer list"
  result_quality_metrics :: quality_metrics

text \<open>\<^verbatim>\<open>round(x, 2)\<close>\<close>

definition py_round2 :: "real \<Rightarrow> real" where
  "py_round2 x = real_of_int (py_round (x * 100)) / 100"

definition scan_image ::
  "clock \<Rightarrow> string \<Rightarrow> sparse_image \<Rightarrow> template_layout \<Rightarrow> py_error + scan_result" where
  "scan_image clk image_path data template_layout =
     (case load_image data of
        Inl e \<Rightarrow> Inl e
      | Inr img \<Rightarrow>
          (case extract_answers img template_layout of
             Inl e \<Rightarrow> Inl e
           | Inr (answers, rect, metrics) \<Rightarrow>
               Inr \<lparr>result_version = ''1.0.0'',
                    result_scan_metadata =
                      \<lparr>scan_timestamp = utc_now_iso clk @ ''Z'',
                       image_source = image_path,
                       scanner_version = ''testscan-1.0.0'',
                       processing_time_ms =
                         py_round2 ((time_end clk - time_start clk) * 1000)\<rparr>,
                    result_identification =
                      \<lparr>ident_version_id = ''detected'', ident_student_id = ''detected'',
                       ident_confidence_version_id = 0, ident_confidence_student_id = 0\<rparr>,
                    result_rectification = rect,
                    result_answers = answers,
                    result_quality_metrics = metrics\<rparr>))"

section \<open>Verdicts, scores and candidates\<close>

text \<open>
  The verdict \<open>(is_filled, confidence)\<close> that the bubble loop obtains for a field, at the
  default threshold 0.3, and the fields of a question judged filled, in layout order.
\<close>

definition bubble_verdict :: "image \<Rightarrow> int \<Rightarrow> answer_field \<Rightarrow> bool \<times> real" where
  "bubble_verdict img dpi field =
     (case detect_bubble_fill img (mm_to_pixels (field_x_mm field) dpi)
             (mm_to_pixels (field_y_mm field) dpi)
             (mm_to_pixels (case field_radius_mm field of None \<Rightarrow> 3 | Some r \<Rightarrow> r) dpi) 0.3 of
        Inl e \<Rightarrow> (False, 0)
      | Inr r \<Rightarrow> r)"

definition filled_fields :: "image \<Rightarrow> int \<Rightarrow> answer_field list \<Rightarrow> answer_field list" where
  "filled_fields img dpi fs = filter (\<lambda>f. fst (bubble_verdict img dpi f)) fs"

text \<open>The bubble loop's running \<open>(extracted_answer, max_confidence)\<close> as a fold.\<close>

definition best_of :: "image \<Rightarrow> int \<Rightarrow> answer_field list \<Rightarrow> string option \<times> real \<Rightarrow> string option \<times> real" where
  "best_of img dpi fs s =
     fold (\<lambda>f s. if fst (bubble_verdict img dpi f) \<and> snd (bubble_verdict img dpi f) > snd s
                 then (Some (field_label f), snd (bubble_verdict img dpi f)) else s) fs s"

text \<open>
  The question records that one of the two branches of the extraction loop handles.
\<close>

definition extractable :: "question_layout \<Rightarrow> bool" where
  "extractable q =
     ((lq_type q \<in> set [''multiple_choice'', ''true_false''] \<and> lq_answer_fields q \<noteq> None)
      \<or> (lq_type q \<in> set [''short_answer'', ''essay''] \<and> lq_ocr_region q \<noteq> None))"

text \<open>The identifying part of an answer record, taken from its question record.\<close>

definition answer_for :: "question_layout \<Rightarrow> answer \<Rightarrow> bool" where
  "answer_for q a =
     (question_id a = lq_question_id q \<and> question_type a = lq_type q
      \<and> question_number a = (case lq_question_number q of None \<Rightarrow> 0 | Some n \<Rightarrow> n))"

text \<open>
  The ring \<open>r\<^sup>2 < d\<^sup>2 \<le> outer\<^sup>2\<close> around a centre, clipped to the image, the fraction
  of its pixels brighter than 200 (zero for an empty ring), and the score of a candidate
  centre: zero within \<open>radius\<close> pixels of the border (and for a negative radius), else
  0.7 times the dark fraction of the disk plus 0.3 times the white fraction of the ring
  whose outer radius is 1.5 times the radius, rounded down.
\<close>

definition annulus :: "image \<Rightarrow> int \<Rightarrow> int \<Rightarrow> int \<Rightarrow> int \<Rightarrow> (int \<times> int) set" where
  "annulus img cx cy r outer =
     Set.filter (\<lambda>(x, y). r * r < (x - cx) * (x - cx) + (y - cy) * (y - cy)
                   \<and> (x - cx) * (x - cx) + (y - cy) * (y - cy) \<le> outer * outer)
       ({0..<image_width img} \<times> {0..<image_height img})"

definition white_fraction :: "image \<Rightarrow> (int \<times> int) set \<Rightarrow> real" where
  "white_fraction img S =
     (if card S = 0 then 0
      else real (card (Set.filter (\<lambda>p. pixel img p > 200) S)) / real (card S))"

definition mark_score :: "image \<Rightarrow> int \<Rightarrow> int \<Rightarrow> int \<Rightarrow> real" where
  "mark_score img cx cy radius =
     (if cx < radius \<or> cy < radius \<or> cx \<ge> image_width img - radius
         \<or> cy \<ge> image_height img - radius \<or> radius < 0 then 0
      else 0.7 * dark_fraction img (interior_disk img cx cy radius)
         + 0.3 * white_fraction img (annulus img cx cy radius \<lfloor>1.5 * real_of_int radius\<rfloor>))"

text \<open>
  The candidate centres of a mark, in the order the search visits them, the search as
  a fold, and what the search loop maintains: the best match is absent with best score
  zero, or it is a visited candidate with its own positive score as the best score.
\<close>

definition candidates :: "int \<Rightarrow> int \<Rightarrow> (int \<times> int) list" where
  "candidates exp_x exp_y =
     map (\<lambda>(dy, dx). (exp_x + dx, exp_y + dy)) (List.product search_offsets search_offsets)"

definition pick_best ::
  "(int \<times> int \<Rightarrow> real) \<Rightarrow> (int \<times> int) list \<Rightarrow> (int \<times> int \<times> real) option \<times> real \<Rightarrow>
   (int \<times> int \<times> real) option \<times> real" where
  "pick_best sc cs s =
     fold (\<lambda>c s. if sc c > snd s then (Some (fst c, snd c, sc c), sc c) else s) cs s"

definition best_ok ::
  "(int \<times> int \<Rightarrow> real) \<Rightarrow> (int \<times> int) set \<Rightarrow> (int \<times> int \<times> real) option \<times> real \<Rightarrow> bool" where
  "best_ok sc A s =
     (case fst s of None \<Rightarrow> snd s = 0
      | Some (x, y, v) \<Rightarrow> v = snd s \<and> 0 < v \<and> (x, y) \<in> A \<and> sc (x, y) = v)"

text \<open>
  What locating a mark reports: the expected position; a detected position exactly
  when some candidate scores above 0.7, and then a candidate of maximal score with that
  score as confidence.
\<close>

definition mark_located :: "image \<Rightarrow> int \<Rightarrow> registration_mark \<Rightarrow> detected_mark \<Rightarrow> bool" where
  "mark_located img dpi m d =
     (let ex = mm_to_pixels (mark_x_mm m) dpi;
          ey = mm_to_pixels (mark_y_mm m) dpi;
          r = mm_to_pixels (mark_size_mm m) dpi;
          cands = candidates ex ey
      in expected_x d = ex \<and> expected_y d = ey
         \<and> ((detected_x d \<noteq> None) = (\<exists>c \<in> set cands. 0.7 < mark_score img (fst c) (snd c) r))
         \<and> (case (detected_x d, detected_y d) of
               (Some x, Some y) \<Rightarrow>
                  (x, y) \<in> set cands \<and> mark_confidence d = mark_score img x y r
                  \<and> (\<forall>c \<in> set cands. mark_score img (fst c) (snd c) r \<le> mark_confidence d)
             | (None, None) \<Rightarrow> mark_confidence d = 0
             | _ \<Rightarrow> False))"

text \<open>
  The score as the claim words it, for comparison with the code: no border guard, and
  the ring reaching to 1.5 times the radius (\<open>4 d\<^sup>2 \<le> 9 r\<^sup>2\<close>).
\<close>

definition claimed_annulus :: "image \<Rightarrow> int \<Rightarrow> int \<Rightarrow> int \<Rightarrow> (int \<times> int) set" where
  "claimed_annulus img cx cy r =
     Set.filter (\<lambda>(x, y). r * r < (x - cx) * (x - cx) + (y - cy) * (y - cy)
                   \<and> 4 * ((x - cx) * (x - cx) + (y - cy) * (y - cy)) \<le> 9 * (r * r))
       ({0..<image_width img} \<times> {0..<image_height img})"

definition claimed_mark_score :: "image \<Rightarrow> int \<Rightarrow> int \<Rightarrow> int \<Rightarrow> real" where
  "claimed_mark_score img cx cy r =
     0.7 * dark_fraction img (interior_disk img cx cy r)
     + 0.3 * white_fraction img (claimed_annulus img cx cy r)"

section \<open>Plotting\<close>

text \<open>
  The pure counterpart of \<^verbatim>\<open>image[y][x] = value\<close> for a position inside the image, a
  sequence of such writes, an image of a given width and height, and a triple
  \<open>(x, y, v)\<close> whose position lies inside such an image.
\<close>

definition set_px :: "image \<Rightarrow> int \<times> int \<times> int \<Rightarrow> image" where
  "set_px img t = (case t of (x, y, v) \<Rightarrow> img[nat y := (img ! nat y)[nat x := v]])"

definition plot :: "image \<Rightarrow> (int \<times> int \<times> int) list \<Rightarrow> image" where
  "plot img ts = fold (\<lambda>t im. set_px im t) ts img"

definition sized :: "int \<Rightarrow> int \<Rightarrow> image \<Rightarrow> bool" where
  "sized w h img = (int (length img) = h \<and> list_all (\<lambda>row. int (length row) = w) img)"

definition in_canvas :: "int \<Rightarrow> int \<Rightarrow> int \<times> int \<times> int \<Rightarrow> bool" where
  "in_canvas w h t = (case t of (x, y, v) \<Rightarrow> 0 \<le> x \<and> x < w \<and> 0 \<le> y \<and> y < h)"

text \<open>The non-white pixels of row \<open>y\<close>, in the order \<^verbatim>\<open>save_compact\<close> appends them.\<close>

definition nonwhite_row :: "image \<Rightarrow> int \<Rightarrow> int \<Rightarrow> (int \<times> int \<times> int) list" where
  "nonwhite_row img w y =
     concat (map (\<lambda>x. if pixel img (x, y) < 255 then [(x, y, pixel img (x, y))] else []) [0..w - 1])"




text \<open>A scan result with the two wall-clock fields of its metadata blanked.\<close>

definition timeless :: "scan_result \<Rightarrow> scan_result" where
  "timeless r =
     r\<lparr>result_scan_metadata :=
         (result_scan_metadata r)\<lparr>scan_timestamp := [], processing_time_ms := 0\<rparr>\<rparr>"

section \<open>Example data\<close>

text \<open>
  A 4 by 4 page with a mark of radius 1 in each corner; a 5 by 5 page with one mark of
  radius 2 in the middle; a 6 by 3 page with the bubble B of a two-field question
  filled; a question record without answer fields.
\<close>

definition corner_marks :: "registration_mark list" where
  "corner_marks =
     [\<lparr>mark_x_mm = 0, mark_y_mm = 0, mark_size_mm = 0.1\<rparr>,
      \<lparr>mark_x_mm = 0.3, mark_y_mm = 0, mark_size_mm = 0.1\<rparr>,
      \<lparr>mark_x_mm = 0, mark_y_mm = 0.3, mark_size_mm = 0.1\<rparr>,
      \<lparr>mark_x_mm = 0.3, mark_y_mm = 0.3, mark_size_mm = 0.1\<rparr>]"

definition corner_image :: image where
  "corner_image =
     [[0, 0, 0, 0],
      [0, 255, 255, 0],
      [0, 255, 255, 0],
      [0, 0, 0, 0]]"

definition undetected :: "int \<Rightarrow> int \<Rightarrow> detected_mark" where
  "undetected x y = \<lparr>expected_x = x, expected_y = y, detected_x = None, detected_y = None,
                     mark_confidence = 0\<rparr>"

definition centre_mark_image :: image where
  "centre_mark_image =
     [[255, 255, 0, 255, 255],
      [255, 0, 0, 0, 255],
      [0, 0, 0, 0, 0],
      [255, 0, 0, 0, 255],
      [255, 255, 0, 255, 255]]"

definition two_bubble_image :: image where
  "two_bubble_image =
     [[255, 255, 255, 255, 0, 255],
      [255, 255, 255, 0, 0, 0],
      [255, 255, 255, 255, 0, 255]]"

definition two_bubble_question :: question_layout where
  "two_bubble_question =
     \<lparr>lq_question_id = ''q1'', lq_type = ''multiple_choice'', lq_question_number = Some 1,
      lq_answer_region = None,
      lq_answer_fields = Some
        [\<lparr>field_label = ''A'', field_x_mm = 0.1, field_y_mm = 0.1, field_type = None,
          field_radius_mm = Some 0.3\<rparr>,
         \<lparr>field_label = ''B'', field_x_mm = 0.35, field_y_mm = 0.1, field_type = None,
          field_radius_mm = Some 0.3\<rparr>],
      lq_ocr_region = None\<rparr>"

definition bare_question :: question_layout where
  "bare_question =
     \<lparr>lq_question_id = ''q1'', lq_type = ''multiple_choice'', lq_question_number = Some 1,
      lq_answer_region = None, lq_answer_fields = None, lq_ocr_region = None\<rparr>"

text \<open>
  A 5 by 5 page with one grey pixel (4 percent non-white) and a 3 by 2 page; a random
  source whose state is a counter; two clock readings; a stored 2 by 2 page, a layout
  without questions, and the arguments and question order of a seeded synthesis run.
\<close>

definition sparse_example :: image where
  "sparse_example =
     [[255, 255, 255, 255, 255],
      [255, 255, 40, 255, 255],
      [255, 255, 255, 255, 255],
      [255, 255, 255, 255, 255],
      [255, 255, 255, 255, 255]]"


definition counter_source :: "int random_source" where
  "counter_source =
     \<lparr>rs_seed = (\<lambda>n. n),
      rs_random = (\<lambda>g. (real_of_int (g mod 10) / 10, g + 1)),
      rs_randint = (\<lambda>a b g. (a + g mod (b - a + 1), g + 1)),
      rs_choice = (\<lambda>xs g. (xs ! nat (g mod int (length xs)), g + 1))\<rparr>"

definition morning :: clock where
  "morning = \<lparr>time_start = 100, time_end = 100.25, utc_now_iso = ''2025-03-01T09:00:00''\<rparr>"

definition evening :: clock where
  "evening = \<lparr>time_start = 900, time_end = 900.5, utc_now_iso = ''2025-03-01T21:00:00''\<rparr>"

definition one_pixel_file :: sparse_image where
  "one_pixel_file = \<lparr>sparse_width = 2, sparse_height = 2, sparse_format = ''sparse'',
                      sparse_pixels = [(1, 0, 40)]\<rparr>"

definition no_question_layout :: template_layout where
  "no_question_layout = \<lparr>page_dpi = 300, registration_marks = Some [], questions = []\<rparr>"

definition seeded_args :: testgen_args where
  "seeded_args = \<lparr>arg_students = None, arg_accuracy = 0.9, arg_noise = 10, arg_rotation = 0,
                   arg_skew = 0, arg_format = ''json'', arg_seed = Some 42\<rparr>"

definition one_student_order :: question_order where
  "one_student_order =
     \<lparr>versions = [(''v1'', [\<lparr>oq_question_id = ''q1'', oq_correct_answer = ''B'',
                              oq_options = Some [''A'', ''B'']\<rparr>])],
      student_assignments = [(''s001'', ''v1'')]\<rparr>"

section \<open>Drawn figures\<close>













section \<open>Round trip: the layouts covered\<close>








section \<open>Round trip: example data\<close>








section \<open>Coordinate conversion: results\<close>

lemma py_int_nonneg: "0 \<le> x \<Longrightarrow> py_int x = \<lfloor>x\<rfloor>"
  by (simp add: py_int_def)





section \<open>Bubble classifier: centres outside the image\<close>

text \<open>
  Claim C10: when the bubble centre lies outside the image (\<open>cx < 0\<close>, \<open>cy < 0\<close>,
  \<open>cx \<ge> width\<close> or \<open>cy \<ge> height\<close>), \<^verbatim>\<open>detect_bubble_fill\<close> returns \<open>(False, 0.0)\<close>
  and raises nothing; the result is the same constant whatever the pixels are, so none
  is sampled, and the confidence is not above 0.8.
\<close>

theorem C10_out_of_bounds_unfilled:
  assumes "cx < 0 \<or> cy < 0 \<or> cx \<ge> image_width img \<or> cy \<ge> image_height img"
  shows "detect_bubble_fill img cx cy radius threshold = Inr (False, 0)
         \<and> \<not> (snd (False, 0::real) > 0.8)"
  using assms by (simp add: detect_bubble_fill_def)

theorem C10_out_of_bounds_witness:
  "((5::int) < 0 \<or> (0::int) < 0 \<or> 5 \<ge> image_width [[0, 0], [0, 0]]
      \<or> 0 \<ge> image_height [[0, 0], [0, 0]])
   \<and> detect_bubble_fill [[0, 0], [0, 0]] 5 0 3 0.3 = Inr (False, 0)"
  using C10_out_of_bounds_unfilled [of 5 0 "[[0, 0], [0, 0]]" 3 "0.3"]
  by (simp add: image_width_def image_height_def)

section \<open>Counting loops as cardinalities\<close>


lemma read_pixel_rect:
  assumes "rectangular img" "0 \<le> x" "x < image_width img" "0 \<le> y" "y < image_height img"
  shows "read_pixel img y x = Inr (pixel img (x, y))"
proof -
  from assms have ylen: "nat y < length img" by (simp add: image_height_def)
  then have "img ! nat y \<in> set img" by simp
  with assms(1) have "int (length (img ! nat y)) = image_width img"
    by (simp add: rectangular_def list_all_iff)
  with assms ylen show ?thesis
    by (simp add: read_pixel_def py_index_def pixel_def image_height_def)
qed

lemma for_each_pure:
  assumes "\<And>x s. x \<in> set xs \<Longrightarrow> body x s = Inr (g x s)"
  shows "for_each xs body s = Inr (fold g xs s)"
  using assms by (induction xs arbitrary: s) simp_all

lemma fold_product:
  "fold (\<lambda>y. fold (f y) xs) ys s = fold (\<lambda>(y, x). f y x) (List.product ys xs) s"
proof (induction ys arbitrary: s)
  case Nil
  then show ?case by simp
next
  case (Cons y ys)
  have "fold (\<lambda>(y', x). f y' x) (map (Pair y) xs) s = fold (f y) xs s" for s
    by (induction xs arbitrary: s) simp_all
  with Cons show ?case by simp
qed

lemma fold_count:
  "fold (\<lambda>p s. if A p then (if H p then fst s + 1 else fst s, snd s + 1) else s) ps (h, t)
     = (h + int (length (filter (\<lambda>p. A p \<and> H p) ps)), t + int (length (filter A ps)))"
  by (induction ps arbitrary: h t) simp_all

lemma count_body_pure:
  assumes "rectangular img"
  shows "count_body img cx cy inside hit dy dx s =
     Inr (if count_step img cx cy inside (dy, dx)
          then (if hit (pixel img (cx + dx, cy + dy)) then fst s + 1 else fst s, snd s + 1) else s)"
  using assms by (auto simp: count_body_def count_step_def Let_def read_pixel_rect)

lemma count_region_lists:
  assumes "rectangular img"
  shows "count_region img cx cy rad inside hit =
     Inr (int (length (filter (\<lambda>p. count_step img cx cy inside p \<and> hit (pixel img (cx + snd p, cy + fst p)))
                (List.product [- rad..rad] [- rad..rad]))),
          int (length (filter (count_step img cx cy inside) (List.product [- rad..rad] [- rad..rad]))))"
proof -
  let ?g = "\<lambda>dy dx s. if count_step img cx cy inside (dy, dx)
          then (if hit (pixel img (cx + dx, cy + dy)) then fst s + 1 else fst s, snd s + 1) else s"
  have inner: "for_each [- rad..rad] (count_body img cx cy inside hit dy) s = Inr (fold (?g dy) [- rad..rad] s)" for dy s
    by (rule for_each_pure) (simp add: count_body_pure [OF assms])
  have "count_region img cx cy rad inside hit = Inr (fold (\<lambda>dy. fold (?g dy) [- rad..rad]) [- rad..rad] (0, 0))"
    unfolding count_region_def py_range_def
    by (simp add: for_each_pure [where g = "\<lambda>dy. fold (?g dy) [- rad..rad]"] inner)
  also have "fold (\<lambda>dy. fold (?g dy) [- rad..rad]) [- rad..rad] (0, 0)
      = fold (\<lambda>(dy, dx). ?g dy dx) (List.product [- rad..rad] [- rad..rad]) (0, 0)"
    by (rule fold_product)
  also have "(\<lambda>(dy, dx). ?g dy dx) = (\<lambda>p s. if count_step img cx cy inside p
       then (if hit (pixel img (cx + snd p, cy + fst p)) then fst s + 1 else fst s, snd s + 1) else s)"
    by (auto simp: fun_eq_iff)
  finally show ?thesis
    by (simp add: fold_count case_prod_beta)
qed

lemma card_offsets:
  "int (length (filter (\<lambda>p. count_step img cx cy inside p \<and> Q (cx + snd p, cy + fst p)) (List.product [- rad..rad] [- rad..rad])))
   = int (card (Set.filter Q (region img cx cy rad inside)))"
proof -
  let ?ps = "List.product [- rad..rad] [- rad..rad]"
  let ?P = "\<lambda>p. count_step img cx cy inside p \<and> Q (cx + snd p, cy + fst p)"
  have d: "distinct (filter ?P ?ps)" by (simp add: distinct_product)
  let ?f = "\<lambda>p::int \<times> int. (cx + snd p, cy + fst p)"
  have inj: "inj_on ?f (set (filter ?P ?ps))" by (auto simp: inj_on_def)
  have img: "?f ` set (filter ?P ?ps) = Set.filter Q (region img cx cy rad inside)"
  proof (rule set_eqI)
    fix q :: "int \<times> int"
    obtain x y where q: "q = (x, y)" by (cases q)
    show "q \<in> ?f ` set (filter ?P ?ps) \<longleftrightarrow> q \<in> Set.filter Q (region img cx cy rad inside)"
    proof
      assume "q \<in> ?f ` set (filter ?P ?ps)"
      then show "q \<in> Set.filter Q (region img cx cy rad inside)"
        by (auto simp: q region_def count_step_def)
    next
      assume a: "q \<in> Set.filter Q (region img cx cy rad inside)"
      then have "(y - cy, x - cx) \<in> set (filter ?P ?ps)"
        by (auto simp: q region_def count_step_def)
      then have "?f (y - cy, x - cx) \<in> ?f ` set (filter ?P ?ps)" by (rule imageI)
      then show "q \<in> ?f ` set (filter ?P ?ps)" by (simp add: q)
    qed
  qed
  have "length (filter ?P ?ps) = card (set (filter ?P ?ps))"
    by (rule distinct_card [OF d, symmetric])
  also have "\<dots> = card (?f ` set (filter ?P ?ps))"
    using inj by (simp add: card_image)
  also have "\<dots> = card (Set.filter Q (region img cx cy rad inside))"
    by (simp only: img)
  finally show ?thesis by simp
qed




lemma abs_le_of_square_le:
  fixes a :: int
  assumes "a * a + b * b \<le> r * r" "0 \<le> r"
  shows "\<bar>a\<bar> \<le> r"
proof (rule ccontr)
  assume "\<not> \<bar>a\<bar> \<le> r"
  then have "r < \<bar>a\<bar>" by simp
  with assms(2) have "r ^ 2 < \<bar>a\<bar> ^ 2" by (intro power_strict_mono) simp_all
  then have "r * r < \<bar>a\<bar> * \<bar>a\<bar>" by (simp add: power2_eq_square)
  also have "\<dots> = a * a" by (simp add: abs_mult_self_eq)
  also have "\<dots> \<le> a * a + b * b" by simp
  finally show False using assms(1) by simp
qed

lemma region_disk:
  assumes "0 \<le> rad"
  shows "region img cx cy rad (\<lambda>dx dy. dx * dx + dy * dy \<le> rad * rad) = interior_disk img cx cy rad"
proof -
  have "\<bar>x - cx\<bar> \<le> rad \<and> \<bar>y - cy\<bar> \<le> rad"
    if "(x - cx) * (x - cx) + (y - cy) * (y - cy) \<le> rad * rad" for x y
    using abs_le_of_square_le [OF that assms]
      abs_le_of_square_le [of "y - cy" "x - cx" rad] that assms by (simp add: add.commute)
  then show ?thesis
    by (auto simp: region_def interior_disk_def)
qed

lemma finite_interior_disk: "finite (interior_disk img cx cy r)"
  by (simp add: interior_disk_def)

lemma centre_in_disk:
  assumes "0 \<le> cx" "cx < image_width img" "0 \<le> cy" "cy < image_height img"
  shows "(cx, cy) \<in> interior_disk img cx cy r"
  using assms by (simp add: interior_disk_def)

lemma count_region_disk:
  assumes "rectangular img" "0 \<le> rad"
  shows "count_region img cx cy rad (\<lambda>dx dy. dx * dx + dy * dy \<le> rad * rad) hit =
     Inr (int (card (Set.filter (\<lambda>p. hit (pixel img p)) (interior_disk img cx cy rad))),
          int (card (interior_disk img cx cy rad)))"
proof -
  let ?ins = "\<lambda>dx dy :: int. dx * dx + dy * dy \<le> rad * rad"
  have a: "int (length (filter (\<lambda>p. count_step img cx cy ?ins p \<and> hit (pixel img (cx + snd p, cy + fst p)))
            (List.product [- rad..rad] [- rad..rad])))
     = int (card (Set.filter (\<lambda>p. hit (pixel img p)) (region img cx cy rad ?ins)))"
    by (rule card_offsets)
  have b: "int (length (filter (count_step img cx cy ?ins) (List.product [- rad..rad] [- rad..rad])))
     = int (card (Set.filter (\<lambda>p. True) (region img cx cy rad ?ins)))"
    using card_offsets [of img cx cy ?ins "\<lambda>p. True" rad] by simp
  show ?thesis
    unfolding count_region_lists [OF assms(1)] a b region_disk [OF assms(2)] by simp
qed

section \<open>Bubble classifier: the fill ratio\<close>

text \<open>
  Claim C3, as stated for every threshold, fails at \<open>t = 0\<close>: the verdict is computed,
  then \<^verbatim>\<open>fill_ratio / threshold\<close> raises \<^verbatim>\<open>ZeroDivisionError\<close> and nothing is returned.
\<close>

theorem C3_threshold_zero_counterexample:
  "detect_bubble_fill [[0]] 0 0 3 0 = Inl ZeroDivisionError"
  by code_simp

text \<open>
  Claim C3, amended: for every rectangular image, every bubble centre \<open>(cx, cy)\<close> inside
  it, every radius \<open>r\<close> and every threshold \<open>t \<noteq> 0\<close>, \<^verbatim>\<open>detect_bubble_fill\<close> samples
  exactly the pixels of the disk of radius \<open>max 1 (r - 2)\<close> around the centre that are
  inside the image: its fill ratio is the fraction of those pixels with intensity below
  128, the verdict is \<open>fill_ratio \<ge> t\<close>, and the confidence is
  \<open>min 0.99 (fill_ratio / t)\<close> when filled and \<open>min 0.99 (1 - fill_ratio / t)\<close> when not.
\<close>

theorem C3_detect_bubble_fill:
  assumes "rectangular img"
    and "0 \<le> cx" "cx < image_width img" "0 \<le> cy" "cy < image_height img"
    and "t \<noteq> 0"
  shows "detect_bubble_fill img cx cy r t =
     (let fill_ratio = dark_fraction img (interior_disk img cx cy (max 1 (r - 2)));
          is_filled = (fill_ratio \<ge> t)
      in Inr (is_filled,
              if is_filled then min 0.99 (fill_ratio / t) else min 0.99 (1 - fill_ratio / t)))"
proof -
  let ?D = "interior_disk img cx cy (max 1 (r - 2))"
  have "card ?D \<noteq> 0"
    using centre_in_disk [OF assms(2-5), of "max 1 (r - 2)"]
      finite_interior_disk [of img cx cy "max 1 (r - 2)"] by (auto simp: card_eq_0_iff)
  moreover have "count_region img cx cy (max 1 (r - 2))
      (\<lambda>dx dy. dx * dx + dy * dy \<le> max 1 (r - 2) * max 1 (r - 2)) (\<lambda>v. v < 128)
      = Inr (int (card (Set.filter (\<lambda>p. pixel img p < 128) ?D)), int (card ?D))"
    by (rule count_region_disk [OF assms(1)]) simp
  ultimately show ?thesis
    using assms(2-6) by (simp add: detect_bubble_fill_def dark_fraction_def Let_def)
qed

theorem C3_detect_bubble_fill_witness:
  "rectangular [[0, 255], [255, 255]]
   \<and> (0::int) < image_width [[0, 255], [255, 255]] \<and> (0::int) < image_height [[0, 255], [255, 255]]
   \<and> (0.3::real) \<noteq> 0
   \<and> dark_fraction [[0, 255], [255, 255]] (interior_disk [[0, 255], [255, 255]] 0 0 1) = 1 / 3
   \<and> detect_bubble_fill [[0, 255], [255, 255]] 0 0 3 0.3 = Inr (True, 0.99)"
  using C3_detect_bubble_fill [of "[[0, 255], [255, 255]]" 0 0 "0.3" 3]
  by code_simp

section \<open>The bubble loop\<close>

lemma count_region_ok:
  assumes "rectangular img"
  shows "\<exists>h t. count_region img cx cy rad inside hit = Inr (h, t)"
  by (simp add: count_region_lists [OF assms])

lemma detect_bubble_fill_ok:
  assumes "rectangular img" "t \<noteq> 0"
  shows "\<exists>b c. detect_bubble_fill img cx cy r t = Inr (b, c)"
proof -
  obtain h n where "count_region img cx cy (max 1 (r - 2))
      (\<lambda>dx dy. dx * dx + dy * dy \<le> max 1 (r - 2) * max 1 (r - 2)) (\<lambda>v. v < 128) = Inr (h, n)"
    using count_region_ok [OF assms(1)] by blast
  then show ?thesis
    using assms(2) by (auto simp: detect_bubble_fill_def Let_def)
qed

text \<open>At the default threshold a filled bubble always has confidence 0.99.\<close>

lemma filled_confidence:
  assumes "detect_bubble_fill img cx cy r 0.3 = Inr (True, c)"
  shows "c = 0.99"
proof -
  have "min (99 / 100) (x / (3 / 10)) = (99 / 100 :: real)" if "3 / 10 \<le> x" for x :: real
    using that by (simp add: min_def)
  then show ?thesis
    using assms
    by (auto simp: detect_bubble_fill_def Let_def split: if_splits sum.splits prod.splits)
qed

lemma bubble_verdict_run:
  assumes "rectangular img"
  shows "detect_bubble_fill img (mm_to_pixels (field_x_mm field) dpi)
             (mm_to_pixels (field_y_mm field) dpi)
             (mm_to_pixels (case field_radius_mm field of None \<Rightarrow> 3 | Some r \<Rightarrow> r) dpi) 0.3
         = Inr (bubble_verdict img dpi field)"
proof -
  obtain b c where "detect_bubble_fill img (mm_to_pixels (field_x_mm field) dpi)
             (mm_to_pixels (field_y_mm field) dpi)
             (mm_to_pixels (case field_radius_mm field of None \<Rightarrow> 3 | Some r \<Rightarrow> r) dpi) 0.3 = Inr (b, c)"
    using detect_bubble_fill_ok [OF assms, of "0.3"] by (metis rel_simps(76) zero_neq_numeral divide_eq_0_iff)
  then show ?thesis by (simp add: bubble_verdict_def)
qed

lemma bubble_verdict_filled:
  assumes "rectangular img" "fst (bubble_verdict img dpi field)"
  shows "snd (bubble_verdict img dpi field) = 0.99"
proof -
  obtain b c where bc: "bubble_verdict img dpi field = (b, c)" by (cases "bubble_verdict img dpi field")
  with assms(2) have "b" by simp
  with bc bubble_verdict_run [OF assms(1), of field dpi] have
    "detect_bubble_fill img (mm_to_pixels (field_x_mm field) dpi)
             (mm_to_pixels (field_y_mm field) dpi)
             (mm_to_pixels (case field_radius_mm field of None \<Rightarrow> 3 | Some r \<Rightarrow> r) dpi) 0.3 = Inr (True, c)"
    by simp
  from filled_confidence [OF this] bc show ?thesis by simp
qed

lemma bubble_body_run:
  assumes "rectangular img"
  shows "bubble_body img dpi field (ex, mx, fb) =
     Inr (if fst (bubble_verdict img dpi field) then
            (if snd (bubble_verdict img dpi field) > mx
             then (Some (field_label field), snd (bubble_verdict img dpi field),
                   fb @ [(field_label field, snd (bubble_verdict img dpi field))])
             else (ex, mx, fb @ [(field_label field, snd (bubble_verdict img dpi field))]))
          else (ex, mx, fb))"
  by (cases "bubble_verdict img dpi field")
     (simp add: bubble_body_def Let_def bubble_verdict_run [OF assms])

lemma bubble_loop_run:
  assumes "rectangular img"
  shows "for_each fs (bubble_body img dpi) (ex, mx, fb) =
     Inr (fst (best_of img dpi fs (ex, mx)), snd (best_of img dpi fs (ex, mx)),
          fb @ map (\<lambda>f. (field_label f, snd (bubble_verdict img dpi f))) (filled_fields img dpi fs))"
proof (induction fs arbitrary: ex mx fb)
  case Nil
  then show ?case by (simp add: best_of_def filled_fields_def)
next
  case (Cons f fs)
  show ?case
    by (simp add: bubble_body_run [OF assms] Cons.IH best_of_def filled_fields_def)
qed

lemma best_of_fixed:
  assumes "rectangular img"
  shows "best_of img dpi fs (Some l, 99 / 100) = (Some l, 99 / 100)"
  unfolding best_of_def
  by (induction fs) (auto simp: bubble_verdict_filled [OF assms])

lemma best_of_start:
  assumes "rectangular img" "mx < 0.99"
  shows "best_of img dpi fs (ex, mx) =
     (if filled_fields img dpi fs = [] then (ex, mx)
      else (Some (field_label (hd (filled_fields img dpi fs))), 0.99))"
proof (induction fs)
  case Nil
  then show ?case by (simp add: best_of_def filled_fields_def)
next
  case (Cons f fs)
  show ?case
  proof (cases "fst (bubble_verdict img dpi f)")
    case True
    then have c: "snd (bubble_verdict img dpi f) = 99 / 100"
      using bubble_verdict_filled [OF assms(1)] by simp
    have "best_of img dpi (f # fs) (ex, mx) =
        best_of img dpi fs
          (if fst (bubble_verdict img dpi f) \<and> mx < snd (bubble_verdict img dpi f)
           then (Some (field_label f), snd (bubble_verdict img dpi f)) else (ex, mx))"
      by (simp add: best_of_def)
    also have "(if fst (bubble_verdict img dpi f) \<and> mx < snd (bubble_verdict img dpi f)
           then (Some (field_label f), snd (bubble_verdict img dpi f)) else (ex, mx))
        = (Some (field_label f), 99 / 100)"
      unfolding c using True assms(2) by simp
    finally have "best_of img dpi (f # fs) (ex, mx) = (Some (field_label f), 99 / 100)"
      by (simp only: best_of_fixed [OF assms(1)])
    with True show ?thesis
      by (simp add: best_of_fixed [OF assms(1)] filled_fields_def)
  next
    case False
    then have "best_of img dpi (f # fs) (ex, mx) = best_of img dpi fs (ex, mx)"
      by (simp add: best_of_def)
    with False Cons.IH show ?thesis by (simp add: filled_fields_def)
  qed
qed

lemma py_round3_zero: "py_round3 0 = 0"
  by (simp add: py_round3_def py_round_def)

lemma for_each_total:
  assumes "\<And>x s. x \<in> set xs \<Longrightarrow> \<exists>s'. body x s = Inr s'"
  shows "\<exists>s'. for_each xs body s = Inr s'"
  using assms
proof (induction xs arbitrary: s)
  case Nil
  then show ?case by simp
next
  case (Cons x xs)
  from Cons.prems [of x s] obtain s1 where s1: "body x s = Inr s1" by auto
  from Cons.IH [of s1] Cons.prems obtain s2 where "for_each xs body s1 = Inr s2" by auto
  with s1 show ?case by simp
qed

lemma extract_choice_run:
  assumes "rectangular img"
  shows "extract_choice img dpi q fs =
     Inr \<lparr>question_id = lq_question_id q,
          question_number = (case lq_question_number q of None \<Rightarrow> 0 | Some n \<Rightarrow> n),
          question_type = lq_type q,
          extracted_answer =
            (if filled_fields img dpi fs = [] then None
             else Some (field_label (hd (filled_fields img dpi fs)))),
          confidence =
            py_round3 (if length (filled_fields img dpi fs) > 1 then 0.99 * 0.5
                       else if filled_fields img dpi fs = [] then 0 else 0.99),
          extraction_method = ''bubble_detection'',
          flags =
            (if length (filled_fields img dpi fs) > 1 then Some [''multiple_bubbles_filled'']
             else if filled_fields img dpi fs = [] then Some [''no_bubble_filled'']
             else None)\<rparr>"
proof -
  have start: "best_of img dpi fs (None, 0) =
     (if filled_fields img dpi fs = [] then (None, 0)
      else (Some (field_label (hd (filled_fields img dpi fs))), 0.99))"
    by (rule best_of_start [OF assms]) simp
  show ?thesis
    unfolding extract_choice_def bubble_loop_run [OF assms] start
    by (cases "filled_fields img dpi fs") (simp_all add: Let_def)
qed

section \<open>The registration search\<close>

lemma count_region_negative:
  assumes "rad < 0"
  shows "count_region img cx cy rad inside hit = Inr (0, 0)"
proof -
  from assms have "[- rad..rad] = []" by simp
  then show ?thesis by (simp add: count_region_def py_range_def)
qed

lemma region_annulus:
  assumes "0 \<le> outer"
  shows "region img cx cy outer
           (\<lambda>dx dy. r * r < dx * dx + dy * dy \<and> dx * dx + dy * dy \<le> outer * outer)
         = annulus img cx cy r outer"
proof -
  have "\<bar>x - cx\<bar> \<le> outer \<and> \<bar>y - cy\<bar> \<le> outer"
    if "(x - cx) * (x - cx) + (y - cy) * (y - cy) \<le> outer * outer" for x y
    using abs_le_of_square_le [OF that assms]
      abs_le_of_square_le [of "y - cy" "x - cx" outer] that assms by (simp add: add.commute)
  then show ?thesis
    by (auto simp: region_def annulus_def)
qed

lemma count_region_annulus:
  assumes "rectangular img" "0 \<le> outer"
  shows "count_region img cx cy outer
           (\<lambda>dx dy. r * r < dx * dx + dy * dy \<and> dx * dx + dy * dy \<le> outer * outer) hit =
     Inr (int (card (Set.filter (\<lambda>p. hit (pixel img p)) (annulus img cx cy r outer))),
          int (card (annulus img cx cy r outer)))"
proof -
  let ?ins = "\<lambda>dx dy :: int. r * r < dx * dx + dy * dy \<and> dx * dx + dy * dy \<le> outer * outer"
  have a: "int (length (filter (\<lambda>p. count_step img cx cy ?ins p \<and> hit (pixel img (cx + snd p, cy + fst p)))
            (List.product [- outer..outer] [- outer..outer])))
     = int (card (Set.filter (\<lambda>p. hit (pixel img p)) (region img cx cy outer ?ins)))"
    by (rule card_offsets)
  have b: "int (length (filter (count_step img cx cy ?ins) (List.product [- outer..outer] [- outer..outer])))
     = int (card (Set.filter (\<lambda>p. True) (region img cx cy outer ?ins)))"
    using card_offsets [of img cx cy ?ins "\<lambda>p. True" outer] by simp
  show ?thesis
    unfolding count_region_lists [OF assms(1)] a b region_annulus [OF assms(2)] by simp
qed

lemma is_dark_circle_run:
  assumes "rectangular img"
  shows "is_dark_circle img cx cy radius = Inr (mark_score img cx cy radius)"
proof (cases "cx < radius \<or> cy < radius \<or> cx \<ge> image_width img - radius
         \<or> cy \<ge> image_height img - radius")
  case True
  then show ?thesis by (auto simp: is_dark_circle_def mark_score_def)
next
  case guard: False
  show ?thesis
  proof (cases "radius < 0")
    case True
    with guard show ?thesis
      by (simp add: is_dark_circle_def mark_score_def count_region_negative)
  next
    case False
    then have r0: "0 \<le> radius" by simp
    let ?D = "interior_disk img cx cy radius"
    let ?o = "py_int (real_of_int radius * 1.5)"
    have o: "?o = \<lfloor>1.5 * real_of_int radius\<rfloor>"
      using r0 by (simp add: py_int_def mult.commute)
    have o0: "0 \<le> ?o" using r0 by (simp add: py_int_def)
    from guard r0 have inb: "0 \<le> cx" "cx < image_width img" "0 \<le> cy" "cy < image_height img"
      by auto
    have cD: "card ?D \<noteq> 0"
      using centre_in_disk [OF inb, of radius] finite_interior_disk [of img cx cy radius]
      by (auto simp: card_eq_0_iff)
    have c1: "count_region img cx cy radius
        (\<lambda>dx dy. dx * dx + dy * dy \<le> radius * radius) (\<lambda>v. v < 128)
        = Inr (int (card (Set.filter (\<lambda>p. pixel img p < 128) ?D)), int (card ?D))"
      by (rule count_region_disk [OF assms r0])
    have c2: "count_region img cx cy ?o
        (\<lambda>dx dy. radius * radius < dx * dx + dy * dy \<and> dx * dx + dy * dy \<le> ?o * ?o) (\<lambda>v. v > 200)
        = Inr (int (card (Set.filter (\<lambda>p. pixel img p > 200) (annulus img cx cy radius ?o))),
               int (card (annulus img cx cy radius ?o)))"
      by (rule count_region_annulus [OF assms o0])
    have "is_dark_circle img cx cy radius =
       Inr (dark_fraction img ?D * 0.7 + white_fraction img (annulus img cx cy radius ?o) * 0.3)"
      unfolding is_dark_circle_def Let_def c1 c2
      using guard cD by (simp add: dark_fraction_def white_fraction_def)
    with guard False r0 show ?thesis
      by (simp add: mark_score_def py_int_nonneg mult.commute)
  qed
qed

lemma search_offsets_eq: "search_offsets = [- 20, - 15, - 10, - 5, 0, 5, 10, 15, 20]"
  by (simp add: search_offsets_def py_range_step_def upto_rec1)

lemma pick_best_upper:
  "snd s \<le> snd (pick_best sc cs s) \<and> (\<forall>c \<in> set cs. sc c \<le> snd (pick_best sc cs s))"
proof (induction cs arbitrary: s)
  case Nil
  then show ?case by (simp add: pick_best_def)
next
  case (Cons c cs)
  let ?s = "if sc c > snd s then (Some (fst c, snd c, sc c), sc c) else s"
  have eq: "pick_best sc (c # cs) s = pick_best sc cs ?s" by (simp add: pick_best_def)
  have a: "snd s \<le> snd ?s" "sc c \<le> snd ?s" by auto
  from Cons.IH [of ?s] have ih1: "snd ?s \<le> snd (pick_best sc cs ?s)"
    and ih2: "\<forall>c' \<in> set cs. sc c' \<le> snd (pick_best sc cs ?s)" by blast+
  from a(1) ih1 have g1: "snd s \<le> snd (pick_best sc cs ?s)" by (rule order_trans)
  from a(2) ih1 have g2: "sc c \<le> snd (pick_best sc cs ?s)" by (rule order_trans)
  from g1 g2 ih2 show ?case unfolding eq by simp
qed

lemma pick_best_ok:
  assumes "best_ok sc A s"
  shows "best_ok sc (A \<union> set cs) (pick_best sc cs s)"
  using assms
proof (induction cs arbitrary: s A)
  case Nil
  then show ?case by (simp add: pick_best_def)
next
  case (Cons c cs)
  let ?s = "if sc c > snd s then (Some (fst c, snd c, sc c), sc c) else s"
  have eq: "pick_best sc (c # cs) s = pick_best sc cs ?s" by (simp add: pick_best_def)
  have "best_ok sc (insert c A) ?s"
  proof (cases "sc c > snd s")
    case True
    moreover have "0 \<le> snd s" using Cons.prems by (auto simp: best_ok_def split: option.splits)
    ultimately show ?thesis by (simp add: best_ok_def)
  next
    case False
    with Cons.prems show ?thesis by (auto simp: best_ok_def split: option.splits)
  qed
  from Cons.IH [OF this] show ?case unfolding eq by simp
qed

lemma search_body_run:
  assumes "rectangular img"
  shows "search_body img ex ey r dy dx s =
     Inr (if mark_score img (ex + dx) (ey + dy) r > snd s
          then (Some (ex + dx, ey + dy, mark_score img (ex + dx) (ey + dy) r),
                mark_score img (ex + dx) (ey + dy) r) else s)"
  by (simp add: search_body_def Let_def is_dark_circle_run [OF assms])

lemma search_loop_run:
  assumes "rectangular img"
  shows "for_each search_offsets (\<lambda>dy. for_each search_offsets (search_body img ex ey r dy)) s
     = Inr (pick_best (\<lambda>c. mark_score img (fst c) (snd c) r) (candidates ex ey) s)"
proof -
  let ?sc = "\<lambda>c. mark_score img (fst c) (snd c) r"
  let ?g = "\<lambda>dy dx s. if ?sc (ex + dx, ey + dy) > snd s
          then (Some (ex + dx, ey + dy, ?sc (ex + dx, ey + dy)), ?sc (ex + dx, ey + dy)) else s"
  have inner: "for_each search_offsets (search_body img ex ey r dy) s
      = Inr (fold (?g dy) search_offsets s)" for dy s
    by (rule for_each_pure) (simp add: search_body_run [OF assms])
  have "for_each search_offsets (\<lambda>dy. for_each search_offsets (search_body img ex ey r dy)) s
      = Inr (fold (\<lambda>dy. fold (?g dy) search_offsets) search_offsets s)"
    by (simp add: for_each_pure [where g = "\<lambda>dy. fold (?g dy) search_offsets"] inner)
  also have "fold (\<lambda>dy. fold (?g dy) search_offsets) search_offsets s
      = fold (\<lambda>(dy, dx). ?g dy dx) (List.product search_offsets search_offsets) s"
    by (rule fold_product)
  also have "\<dots> = pick_best ?sc (candidates ex ey) s"
    unfolding pick_best_def candidates_def fold_map
    by (rule arg_cong [where f = "\<lambda>f. fold f _ s"]) (auto simp: fun_eq_iff)
  finally show ?thesis .
qed

lemma locate_mark_run:
  assumes "rectangular img"
  shows "\<exists>d. locate_mark img dpi m = Inr d \<and> mark_located img dpi m d"
proof -
  let ?ex = "mm_to_pixels (mark_x_mm m) dpi"
  let ?ey = "mm_to_pixels (mark_y_mm m) dpi"
  let ?r = "mm_to_pixels (mark_size_mm m) dpi"
  let ?sc = "\<lambda>c. mark_score img (fst c) (snd c) ?r"
  let ?res = "pick_best ?sc (candidates ?ex ?ey) (None, 0)"
  have up: "\<forall>c \<in> set (candidates ?ex ?ey). ?sc c \<le> snd ?res" and nonneg: "0 \<le> snd ?res"
    using pick_best_upper [of "(None, 0)" ?sc "candidates ?ex ?ey"] by simp_all
  have "best_ok ?sc ({} \<union> set (candidates ?ex ?ey)) ?res"
    by (rule pick_best_ok) (simp add: best_ok_def)
  then have ok: "best_ok ?sc (set (candidates ?ex ?ey)) ?res" by simp
  have run: "for_each search_offsets
       (\<lambda>dy. for_each search_offsets (search_body img ?ex ?ey ?r dy)) (None, 0) = Inr ?res"
    by (rule search_loop_run [OF assms])
  obtain bm bs where res: "?res = (bm, bs)" by (cases ?res)
  show ?thesis
  proof (cases bm)
    case None
    with ok res have "bs = 0" by (simp add: best_ok_def)
    with up res have "\<forall>c \<in> set (candidates ?ex ?ey). \<not> 0.7 < ?sc c" by fastforce
    with None res show ?thesis
      unfolding locate_mark_def Let_def run
      by (simp add: mark_located_def Let_def)
  next
    case (Some t)
    obtain x y v where t: "t = (x, y, v)" by (cases t)
    with Some ok res have v: "v = bs" "0 < v" "(x, y) \<in> set (candidates ?ex ?ey)" "?sc (x, y) = v"
      by (simp_all add: best_ok_def)
    show ?thesis
    proof (cases "v > 0.7")
      case True
      with v have "\<exists>c \<in> set (candidates ?ex ?ey). 0.7 < ?sc c" by blast
      with True Some t res v up show ?thesis
        unfolding locate_mark_def Let_def run
        by (simp add: mark_located_def Let_def)
    next
      case False
      with up res v have "\<forall>c \<in> set (candidates ?ex ?ey). \<not> 0.7 < ?sc c" by fastforce
      with False Some t res show ?thesis
        unfolding locate_mark_def Let_def run
        by (simp add: mark_located_def Let_def)
    qed
  qed
qed

lemma marks_loop_run:
  assumes "rectangular img"
  shows "\<exists>ds. for_each marks
             (\<lambda>mark detected_marks.
                case locate_mark img dpi mark of
                  Inl e \<Rightarrow> Inl e
                | Inr m \<Rightarrow> Inr (detected_marks @ [m])) acc = Inr (acc @ ds)
           \<and> list_all2 (mark_located img dpi) marks ds"
proof (induction marks arbitrary: acc)
  case Nil
  then show ?case by simp
next
  case (Cons m marks)
  obtain d where d: "locate_mark img dpi m = Inr d" "mark_located img dpi m d"
    using locate_mark_run [OF assms] by blast
  obtain ds where ds: "for_each marks
             (\<lambda>mark detected_marks.
                case locate_mark img dpi mark of
                  Inl e \<Rightarrow> Inl e
                | Inr m \<Rightarrow> Inr (detected_marks @ [m])) (acc @ [d]) = Inr ((acc @ [d]) @ ds)"
      "list_all2 (mark_located img dpi) marks ds"
    using Cons.IH by blast
  show ?case
    by (rule exI [of _ "d # ds"]) (simp add: d ds)
qed

lemma detect_registration_marks_run:
  assumes "rectangular img"
  shows "\<exists>ds. detect_registration_marks img marks dpi = Inr (ds, count_detected ds \<ge> 3)
           \<and> list_all2 (mark_located img dpi) marks ds"
  using marks_loop_run [OF assms, of marks dpi "[]"]
  by (auto simp: detect_registration_marks_def)

section \<open>The question loop\<close>

lemma ocr_body_total:
  assumes "rectangular img"
  shows "\<exists>s'. ocr_body img y x s = Inr s'"
  using assms by (auto simp: ocr_body_def read_pixel_rect)

lemma extract_ocr_run:
  assumes "rectangular img"
  shows "\<exists>a. extract_ocr img dpi q ocr = Inr a \<and> answer_for q a"
proof -
  let ?ox = "mm_to_pixels (box_x_mm ocr) dpi" and ?oy = "mm_to_pixels (box_y_mm ocr) dpi"
  let ?ow = "mm_to_pixels (box_width_mm ocr) dpi" and ?oh = "mm_to_pixels (box_height_mm ocr) dpi"
  have inner: "\<exists>s'. for_each (py_range ?ox (min (?ox + ?ow) (image_width img))) (ocr_body img y) s = Inr s'"
    for y s
    by (rule for_each_total) (rule ocr_body_total [OF assms])
  have "\<exists>s'. for_each (py_range ?oy (min (?oy + ?oh) (image_height img)))
                (\<lambda>y. for_each (py_range ?ox (min (?ox + ?ow) (image_width img))) (ocr_body img y))
                (0, 0) = Inr s'"
    by (rule for_each_total) (rule inner)
  then obtain d t where "for_each (py_range ?oy (min (?oy + ?oh) (image_height img)))
                (\<lambda>y. for_each (py_range ?ox (min (?ox + ?ow) (image_width img))) (ocr_body img y))
                (0, 0) = Inr (d, t)" by (metis surj_pair)
  then show ?thesis
    unfolding extract_ocr_def Let_def by (simp add: answer_for_def)
qed

lemma extract_question_run:
  assumes "rectangular img"
  shows "if extractable q
         then \<exists>a. extract_question img dpi q answers = Inr (answers @ [a]) \<and> answer_for q a
         else extract_question img dpi q answers = Inr answers"
proof (cases "lq_type q \<in> set [''multiple_choice'', ''true_false''] \<and> lq_answer_fields q \<noteq> None")
  case True
  then have "extractable q" by (simp add: extractable_def)
  moreover from True have c1: "(lq_type q \<in> set [''multiple_choice'', ''true_false'']
      \<and> lq_answer_fields q \<noteq> None) = True" by (rule eqTrueI)
  have "extract_question img dpi q answers =
      (case extract_choice img dpi q (the (lq_answer_fields q)) of
           Inl e \<Rightarrow> Inl e | Inr a \<Rightarrow> Inr (answers @ [a]))"
    by (simp only: extract_question_def c1 if_True)
  ultimately show ?thesis
    by (simp add: extract_choice_run [OF assms] answer_for_def)
next
  case nc: False
  show ?thesis
  proof (cases "lq_type q \<in> set [''short_answer'', ''essay''] \<and> lq_ocr_region q \<noteq> None")
    case True
    then have e: "extractable q" by (simp add: extractable_def)
    from nc have c1: "(lq_type q \<in> set [''multiple_choice'', ''true_false'']
      \<and> lq_answer_fields q \<noteq> None) = False" by (rule Eq_FalseI [THEN meta_eq_to_obj_eq])
    from True have c2: "(lq_type q \<in> set [''short_answer'', ''essay'']
      \<and> lq_ocr_region q \<noteq> None) = True" by (rule eqTrueI)
    have eq: "extract_question img dpi q answers =
      (case extract_ocr img dpi q (the (lq_ocr_region q)) of
           Inl e \<Rightarrow> Inl e | Inr a \<Rightarrow> Inr (answers @ [a]))"
      by (simp only: extract_question_def c1 c2 if_True if_False)
    obtain a where "extract_ocr img dpi q (the (lq_ocr_region q)) = Inr a" "answer_for q a"
      using extract_ocr_run [OF assms] by blast
    with e eq show ?thesis by simp
  next
    case False
    with nc have e: "\<not> extractable q" by (simp add: extractable_def)
    from nc have c1: "(lq_type q \<in> set [''multiple_choice'', ''true_false'']
      \<and> lq_answer_fields q \<noteq> None) = False" by (rule Eq_FalseI [THEN meta_eq_to_obj_eq])
    from False have c2: "(lq_type q \<in> set [''short_answer'', ''essay'']
      \<and> lq_ocr_region q \<noteq> None) = False" by (rule Eq_FalseI [THEN meta_eq_to_obj_eq])
    have "extract_question img dpi q answers = Inr answers"
      by (simp only: extract_question_def c1 c2 if_False)
    with e show ?thesis by simp
  qed
qed

lemma questions_loop_run:
  assumes "rectangular img"
  shows "\<exists>as. for_each qs (extract_question img dpi) acc = Inr (acc @ as)
           \<and> list_all2 answer_for (filter extractable qs) as"
proof (induction qs arbitrary: acc)
  case Nil
  then show ?case by simp
next
  case (Cons q qs)
  show ?case
  proof (cases "extractable q")
    case True
    with extract_question_run [OF assms, of q dpi acc]
    obtain a where a: "extract_question img dpi q acc = Inr (acc @ [a])" "answer_for q a" by auto
    from Cons.IH [of "acc @ [a]"] obtain as where
      as: "for_each qs (extract_question img dpi) (acc @ [a]) = Inr ((acc @ [a]) @ as)"
        "list_all2 answer_for (filter extractable qs) as" by blast
    show ?thesis
      by (rule exI [of _ "a # as"]) (simp add: a as True)
  next
    case False
    with extract_question_run [OF assms, of q dpi acc]
    have a: "extract_question img dpi q acc = Inr acc" by simp
    from Cons.IH [of acc] obtain as where
      as: "for_each qs (extract_question img dpi) acc = Inr (acc @ as)"
        "list_all2 answer_for (filter extractable qs) as" by blast
    show ?thesis
      by (rule exI [of _ as]) (simp add: a as False)
  qed
qed

section \<open>Choice questions\<close>

text \<open>
  Claim C4: for a question record of a choice type (multiple_choice or true_false) that
  carries answer fields, scanned on a rectangular image, extraction appends one answer.
  When no field is judged filled its value is null, its confidence 0 and its flag
  \<open>no_bubble_filled\<close>. Otherwise its value is the label of a filled field of highest
  confidence (the first filled field: at the default threshold every filled field has
  confidence 0.99); with more than one filled field the recorded confidence is that
  confidence times 0.5 and the flag is \<open>multiple_bubbles_filled\<close>, with exactly one it is
  that confidence and there is no flag. Recorded confidences are rounded to three
  decimals.
\<close>

theorem C4_choice_extraction:
  assumes "rectangular img"
    and "lq_type q \<in> set [''multiple_choice'', ''true_false'']"
    and "lq_answer_fields q = Some fs"
  shows "\<exists>a. extract_question img dpi q answers = Inr (answers @ [a])
     \<and> (let filled = filled_fields img dpi fs in
        (if filled = [] then
           extracted_answer a = None \<and> confidence a = 0 \<and> flags a = Some [''no_bubble_filled'']
         else
           extracted_answer a = Some (field_label (hd filled))
           \<and> list_all (\<lambda>g. snd (bubble_verdict img dpi g)
                              \<le> snd (bubble_verdict img dpi (hd filled))) filled
           \<and> (if length filled > 1 then
                confidence a = py_round3 (snd (bubble_verdict img dpi (hd filled)) * 0.5)
                \<and> flags a = Some [''multiple_bubbles_filled'']
              else
                confidence a = py_round3 (snd (bubble_verdict img dpi (hd filled)))
                \<and> flags a = None)))"
proof -
  let ?F = "filled_fields img dpi fs"
  from assms(2,3) have c1: "(lq_type q \<in> set [''multiple_choice'', ''true_false'']
      \<and> lq_answer_fields q \<noteq> None) = True" by simp
  have run: "extract_question img dpi q answers =
      (case extract_choice img dpi q fs of Inl e \<Rightarrow> Inl e | Inr a \<Rightarrow> Inr (answers @ [a]))"
  proof -
    from assms(3) have sel: "the (lq_answer_fields q) = fs" by simp
    show ?thesis by (simp only: extract_question_def c1 if_True sel)
  qed
  have all99: "snd (bubble_verdict img dpi g) = 0.99" if "g \<in> set ?F" for g
    using that bubble_verdict_filled [OF assms(1)] by (simp add: filled_fields_def)
  show ?thesis
  proof (cases "?F = []")
    case True
    then show ?thesis
      unfolding run extract_choice_run [OF assms(1)]
      by (simp add: py_round3_zero)
  next
    case False
    then have hd: "hd ?F \<in> set ?F" by simp
    have le: "list_all (\<lambda>g. snd (bubble_verdict img dpi g)
                  \<le> snd (bubble_verdict img dpi (hd ?F))) ?F"
      unfolding list_all_iff
    proof
      fix g assume g: "g \<in> set ?F"
      have "snd (bubble_verdict img dpi g) = snd (bubble_verdict img dpi (hd ?F))"
        by (rule trans [OF all99 [OF g] all99 [OF hd, symmetric]])
      then show "snd (bubble_verdict img dpi g) \<le> snd (bubble_verdict img dpi (hd ?F))" by simp
    qed
    have conf: "py_round3 (if length ?F > 1 then 0.99 * 0.5 else if ?F = [] then 0 else 0.99)
        = (if length ?F > 1 then py_round3 (snd (bubble_verdict img dpi (hd ?F)) * 0.5)
           else py_round3 (snd (bubble_verdict img dpi (hd ?F))))"
      unfolding all99 [OF hd] using False by simp
    show ?thesis
      unfolding run extract_choice_run [OF assms(1)] conf
      using False le by (simp add: Let_def)
  qed
qed

theorem C4_choice_extraction_witness:
  "rectangular two_bubble_image
   \<and> lq_type two_bubble_question \<in> set [''multiple_choice'', ''true_false'']
   \<and> filled_fields two_bubble_image 300 (the (lq_answer_fields two_bubble_question))
      = [\<lparr>field_label = ''B'', field_x_mm = 0.35, field_y_mm = 0.1, field_type = None,
          field_radius_mm = Some 0.3\<rparr>]
   \<and> extract_question two_bubble_image 300 two_bubble_question [] =
       Inr [\<lparr>question_id = ''q1'', question_number = 1, question_type = ''multiple_choice'',
             extracted_answer = Some ''B'', confidence = 0.99,
             extraction_method = ''bubble_detection'', flags = None\<rparr>]"
proof -
  have r: "rectangular two_bubble_image" by code_simp
  have t: "lq_type two_bubble_question \<in> set [''multiple_choice'', ''true_false'']"
    by (simp add: two_bubble_question_def)
  have f: "lq_answer_fields two_bubble_question = Some (the (lq_answer_fields two_bubble_question))"
    by (simp add: two_bubble_question_def)
  have a: "filled_fields two_bubble_image 300 (the (lq_answer_fields two_bubble_question))
      = [\<lparr>field_label = ''B'', field_x_mm = 0.35, field_y_mm = 0.1, field_type = None,
          field_radius_mm = Some 0.3\<rparr>]" by code_simp
  have b: "extract_question two_bubble_image 300 two_bubble_question [] =
       Inr [\<lparr>question_id = ''q1'', question_number = 1, question_type = ''multiple_choice'',
             extracted_answer = Some ''B'', confidence = 0.99,
             extraction_method = ''bubble_detection'', flags = None\<rparr>]" by code_simp
  from C4_choice_extraction [OF r t f, of 300 "[]"]
  have "\<exists>a. extract_question two_bubble_image 300 two_bubble_question [] = Inr ([] @ [a])"
    by blast
  with r t a b show ?thesis by blast
qed

section \<open>Registration marks\<close>

text \<open>
  Claim C5, as stated, fails at the border: a candidate centre closer than the mark
  radius to an edge scores 0, whatever the pixels are. On the 4 by 4 page each corner
  mark scores 1 in the claim's words, so all four would be detected and rectification
  would succeed; the code scores them 0, detects none and reports failure.
\<close>

theorem C5_border_guard_counterexample:
  "claimed_mark_score corner_image 0 0 1 = 1 \<and> claimed_mark_score corner_image 3 0 1 = 1
   \<and> claimed_mark_score corner_image 0 3 1 = 1 \<and> claimed_mark_score corner_image 3 3 1 = 1
   \<and> is_dark_circle corner_image 0 0 1 = Inr 0
   \<and> detect_registration_marks corner_image corner_marks 300 =
       Inr ([undetected 0 0, undetected 3 0, undetected 0 3, undetected 3 3], False)"
  by code_simp

text \<open>
  Claim C5, amended: on a rectangular image the locator searches, for every expected
  mark, the candidate centres on the 5-pixel grid within 20 pixels of the expected
  position; a candidate closer than the mark radius to an image edge scores 0, any other
  scores 0.7 times the fraction of disk pixels darker than 128 plus 0.3 times the
  fraction of pixels brighter than 200 in the ring between the radius and 1.5 times the
  radius rounded down (0 for an empty ring); the mark is detected exactly when the best
  score exceeds 0.7, at a candidate of that best score; and rectification succeeds
  exactly when at least 3 marks are detected.
\<close>

theorem C5_registration_locator:
  assumes "rectangular img"
  shows "search_offsets = [- 20, - 15, - 10, - 5, 0, 5, 10, 15, 20]
     \<and> is_dark_circle img cx cy r = Inr (mark_score img cx cy r)
     \<and> (\<exists>ds. detect_registration_marks img marks dpi = Inr (ds, count_detected ds \<ge> 3)
            \<and> list_all2 (mark_located img dpi) marks ds)"
  using search_offsets_eq is_dark_circle_run [OF assms]
    detect_registration_marks_run [OF assms] by simp

theorem C5_registration_locator_witness:
  "rectangular centre_mark_image
   \<and> is_dark_circle centre_mark_image 2 2 2 = Inr 1
   \<and> detect_registration_marks centre_mark_image
        [\<lparr>mark_x_mm = 0.2, mark_y_mm = 0.2, mark_size_mm = 0.2\<rparr>] 300
      = Inr ([\<lparr>expected_x = 2, expected_y = 2, detected_x = Some 2, detected_y = Some 2,
               mark_confidence = 1\<rparr>], False)"
proof -
  have r: "rectangular centre_mark_image" by code_simp
  have a: "is_dark_circle centre_mark_image 2 2 2 = Inr 1" by code_simp
  have b: "detect_registration_marks centre_mark_image
        [\<lparr>mark_x_mm = 0.2, mark_y_mm = 0.2, mark_size_mm = 0.2\<rparr>] 300
      = Inr ([\<lparr>expected_x = 2, expected_y = 2, detected_x = Some 2, detected_y = Some 2,
               mark_confidence = 1\<rparr>], False)" by code_simp
  from C5_registration_locator [OF r, of 2 2 2 "[\<lparr>mark_x_mm = 0.2, mark_y_mm = 0.2, mark_size_mm = 0.2\<rparr>]" 300]
  have "is_dark_circle centre_mark_image 2 2 2 = Inr (mark_score centre_mark_image 2 2 2)"
    by blast
  with r a b show ?thesis by blast
qed

section \<open>One answer per question record\<close>

text \<open>
  Claim C9, as stated, fails for a question record that neither branch of the loop
  takes: a multiple_choice record without answer fields yields no answer record.
\<close>

theorem C9_missing_fields_counterexample:
  "length (questions \<lparr>page_dpi = 300, registration_marks = Some [], questions = [bare_question]\<rparr>) = 1
   \<and> extract_answers [[255]]
        \<lparr>page_dpi = 300, registration_marks = Some [], questions = [bare_question]\<rparr>
      = Inr ([], \<lparr>markers_detected = 0, markers_expected = 0, rectification_applied = False\<rparr>,
             \<lparr>overall_confidence = 0, low_confidence_count = 0, flags_count = 0\<rparr>)"
  by code_simp

text \<open>
  Claim C9, amended: on a rectangular image extraction returns, in layout order, exactly
  one answer record (question id, number, type, extracted value, confidence, extraction
  method tag, flags) for every question record that is a choice type with answer fields
  or a free-text type with an OCR region, and none for any other record; so when every
  record has that shape the answers sequence has one entry per question record.
\<close>

theorem C9_one_answer_per_extractable_question:
  assumes "rectangular img"
  shows "\<exists>answers rect qm. extract_answers img layout = Inr (answers, rect, qm)
      \<and> list_all2 answer_for (filter extractable (questions layout)) answers
      \<and> length answers = length (filter extractable (questions layout))
      \<and> (list_all extractable (questions layout) \<longrightarrow> length answers = length (questions layout))"
proof -
  let ?marks = "case registration_marks layout of None \<Rightarrow> [] | Some ms \<Rightarrow> ms"
  obtain ds where ds: "detect_registration_marks img ?marks (page_dpi layout)
      = Inr (ds, count_detected ds \<ge> 3)"
    using detect_registration_marks_run [OF assms] by blast
  obtain as where as: "for_each (questions layout) (extract_question img (page_dpi layout)) []
      = Inr ([] @ as)" "list_all2 answer_for (filter extractable (questions layout)) as"
    using questions_loop_run [OF assms] by blast
  from as(2) have len: "length as = length (filter extractable (questions layout))"
    by (simp add: list_all2_lengthD)
  have full: "list_all extractable (questions layout) \<Longrightarrow>
      filter extractable (questions layout) = questions layout"
    by (simp add: list_all_iff)
  have "extract_answers img layout =
      Inr (as, \<lparr>markers_detected = count_detected ds, markers_expected = int (length ?marks),
                rectification_applied = (count_detected ds \<ge> 3)\<rparr>, build_quality_metrics as)"
    using as(1) unfolding extract_answers_def Let_def ds by simp
  with as(2) len full show ?thesis by auto
qed

theorem C9_one_answer_witness:
  "rectangular two_bubble_image
   \<and> filter extractable [two_bubble_question, bare_question] = [two_bubble_question]
   \<and> map question_id (fst (projr (extract_answers two_bubble_image
        \<lparr>page_dpi = 300, registration_marks = None,
         questions = [two_bubble_question, bare_question]\<rparr>))) = [''q1'']"
proof -
  have r: "rectangular two_bubble_image" by code_simp
  have a: "filter extractable [two_bubble_question, bare_question] = [two_bubble_question]"
    by code_simp
  have b: "map question_id (fst (projr (extract_answers two_bubble_image
        \<lparr>page_dpi = 300, registration_marks = None,
         questions = [two_bubble_question, bare_question]\<rparr>))) = [''q1'']" by code_simp
  from C9_one_answer_per_extractable_question [OF r,
      of "\<lparr>page_dpi = 300, registration_marks = None,
         questions = [two_bubble_question, bare_question]\<rparr>"]
  have "\<exists>answers rect qm. extract_answers two_bubble_image
        \<lparr>page_dpi = 300, registration_marks = None,
         questions = [two_bubble_question, bare_question]\<rparr> = Inr (answers, rect, qm)"
    by blast
  with r a b show ?thesis by blast
qed

section \<open>Writes inside the image\<close>

lemma sized_row:
  assumes "sized w h img" "0 \<le> y" "y < h"
  shows "int (length (img ! nat y)) = w"
proof -
  from assms have "nat y < length img" unfolding sized_def by auto
  then have "img ! nat y \<in> set img" by simp
  with assms(1) show ?thesis by (simp add: sized_def list_all_iff)
qed

lemma sized_width:
  assumes "sized w h img" "0 < h"
  shows "image_width img = w" "image_height img = h"
proof -
  from assms have ne: "img \<noteq> []" by (auto simp: sized_def)
  then have "hd img = img ! nat 0" by (simp add: hd_conv_nth)
  with sized_row [OF assms(1), of 0] assms(2) ne show "image_width img = w"
    by (simp add: image_width_def image_height_def)
  from assms show "image_height img = h" by (simp add: image_height_def sized_def)
qed

lemma sized_rectangular:
  assumes "sized w h img"
  shows "rectangular img"
proof (cases "0 < h")
  case True
  from sized_width(1) [OF assms True] assms show ?thesis
    by (simp add: rectangular_def sized_def)
next
  case False
  with assms have "img = []" unfolding sized_def by auto
  then show ?thesis by (simp add: rectangular_def)
qed


lemma sized_set_px:
  assumes "sized w h img"
  shows "sized w h (set_px img t)"
proof -
  obtain x y v where t: "t = (x, y, v)" by (cases t)
  have "length r = length (img ! nat y)" if "r \<in> set (img[nat y := (img ! nat y)[nat x := v]])"
    "nat y < length img" "\<forall>r \<in> set img. length r = length (img ! nat y)" for r
    using that by (auto simp: set_conv_nth nth_list_update split: if_splits)
  show ?thesis
  proof (cases "nat y < length img")
    case True
    then have "img ! nat y \<in> set img" by simp
    with assms have wy: "int (length (img ! nat y)) = w" by (simp add: sized_def list_all_iff)
    have "int (length r) = w" if "r \<in> set (img[nat y := (img ! nat y)[nat x := v]])" for r
    proof -
      from that obtain i where i: "i < length img" "r = img[nat y := (img ! nat y)[nat x := v]] ! i"
        by (auto simp: set_conv_nth)
      show ?thesis
      proof (cases "i = nat y")
        case True
        with i wy show ?thesis by simp
      next
        case False
        with i have "r = img ! i" by simp
        with i(1) have "r \<in> set img" by simp
        with assms show ?thesis by (simp add: sized_def list_all_iff)
      qed
    qed
    with assms show ?thesis by (simp add: sized_def t set_px_def list_all_iff)
  next
    case False
    then have "img[nat y := (img ! nat y)[nat x := v]] = img" by (simp add: list_update_beyond)
    with assms show ?thesis by (simp add: t set_px_def)
  qed
qed

lemma sized_plot:
  assumes "sized w h img"
  shows "sized w h (plot img ts)"
  using assms unfolding plot_def
  by (induction ts arbitrary: img) (simp_all add: sized_set_px)

lemma plot_append: "plot img (ts @ us) = plot (plot img ts) us"
  by (simp add: plot_def)

lemma plot_Nil: "plot img [] = img"
  by (simp add: plot_def)

lemma write_pixel_inside:
  assumes "sized w h img" "in_canvas w h (x, y, v)"
  shows "write_pixel img y x v = Inr (set_px img (x, y, v))"
proof -
  from assms have y: "0 \<le> y" "y < int (length img)" and x: "0 \<le> x" "x < w"
    unfolding in_canvas_def sized_def by auto
  from assms y have "int (length (img ! nat y)) = w"
    using sized_row [OF assms(1), of y] by (simp add: sized_def)
  with x y show ?thesis
    by (simp add: write_pixel_def py_index_def py_store_def set_px_def)
qed

lemma read_pixel_inside:
  assumes "sized w h img" "0 \<le> x" "x < w" "0 \<le> y" "y < h"
  shows "read_pixel img y x = Inr (pixel img (x, y))"
proof -
  from assms have "0 < h" by simp
  from sized_width [OF assms(1) this] assms sized_rectangular [OF assms(1)]
  show ?thesis by (simp add: read_pixel_rect)
qed

text \<open>A loop whose body plots pixels inside the image plots their concatenation.\<close>

lemma for_each_plot:
  assumes "sized w h img"
    and "\<And>a im. a \<in> set xs \<Longrightarrow> sized w h im \<Longrightarrow> body a im = Inr (plot im (ws a))"
  shows "for_each xs body img = Inr (plot img (concat (map ws xs)))"
  using assms
proof (induction xs arbitrary: img)
  case Nil
  then show ?case by (simp add: plot_Nil)
next
  case (Cons a xs)
  have s: "sized w h (plot img (ws a))" by (rule sized_plot [OF Cons.prems(1)])
  have "for_each xs body (plot img (ws a)) = Inr (plot (plot img (ws a)) (concat (map ws xs)))"
    by (rule Cons.IH [OF s]) (simp add: Cons.prems(2))
  then show ?case
    by (simp add: Cons.prems plot_append)
qed

lemma pixel_set_px:
  assumes "sized w h img" "in_canvas w h (x, y, v)" "0 \<le> x'" "x' < w" "0 \<le> y'" "y' < h"
  shows "pixel (set_px img (x, y, v)) (x', y') = (if x' = x \<and> y' = y then v else pixel img (x', y'))"
proof -
  from assms have ly: "nat y < length img" "nat y' < length img"
    unfolding in_canvas_def sized_def by auto
  from assms sized_row [OF assms(1), of y] have lx: "nat x < length (img ! nat y)"
    unfolding in_canvas_def by auto
  from assms have ne: "y' \<noteq> y \<Longrightarrow> nat y' \<noteq> nat y" "x' \<noteq> x \<Longrightarrow> nat x' \<noteq> nat x"
    unfolding in_canvas_def by auto
  show ?thesis
    using ly lx ne by (auto simp: pixel_def set_px_def nth_list_update)
qed

text \<open>A pixel after plotting: untouched, or the value of one of the plotted triples.\<close>

lemma pixel_plot_cases:
  assumes "sized w h img" "list_all (in_canvas w h) ts" "0 \<le> x" "x < w" "0 \<le> y" "y < h"
  shows "((\<forall>v. (x, y, v) \<notin> set ts) \<and> pixel (plot img ts) (x, y) = pixel img (x, y))
       \<or> (x, y, pixel (plot img ts) (x, y)) \<in> set ts"
  using assms(1,2)
proof (induction ts arbitrary: img rule: rev_induct)
  case Nil
  then show ?case by (simp add: plot_Nil)
next
  case (snoc t ts)
  obtain a b v where t: "t = (a, b, v)" by (cases t)
  from snoc.prems have ins: "list_all (in_canvas w h) ts" "in_canvas w h (a, b, v)" by (simp_all add: t)
  have s: "sized w h (plot img ts)" by (rule sized_plot [OF snoc.prems(1)])
  have eq: "plot img (ts @ [t]) = set_px (plot img ts) (a, b, v)"
    by (simp add: plot_def t)
  have px: "pixel (plot img (ts @ [t])) (x, y) =
      (if x = a \<and> y = b then v else pixel (plot img ts) (x, y))"
    unfolding eq by (rule pixel_set_px [OF s ins(2) assms(3-6)])
  from snoc.IH [OF snoc.prems(1) ins(1)] px show ?case
    by (auto simp: t)
qed

lemma pixel_plot_distinct:
  assumes "sized w h img" "list_all (in_canvas w h) ts" "0 \<le> x" "x < w" "0 \<le> y" "y < h"
    and "distinct (map (\<lambda>(a, b, v). (a, b)) ts)" "(x, y, v) \<in> set ts"
  shows "pixel (plot img ts) (x, y) = v"
proof -
  from pixel_plot_cases [OF assms(1-6)] assms(8)
  have m: "(x, y, pixel (plot img ts) (x, y)) \<in> set ts" by blast
  have "inj_on (\<lambda>(a, b, v). (a, b)) (set ts)"
    using assms(7) by (simp add: distinct_map)
  from inj_onD [OF this _ m assms(8)] show ?thesis by simp
qed

lemma for_each_collect:
  assumes "\<And>a acc. a \<in> set xs \<Longrightarrow> body a acc = Inr (acc @ f a)"
  shows "for_each xs body acc = Inr (acc @ concat (map f xs))"
  using assms by (induction xs arbitrary: acc) simp_all

lemma sized_white_canvas:
  assumes "sized w h img"
  shows "sized w h (white_canvas w h)"
proof (cases "0 < h")
  case True
  then have "nat 0 < length img" using assms unfolding sized_def by auto
  from sized_row [OF assms, of 0] True have "0 \<le> w" by simp
  moreover from assms have "0 \<le> h" unfolding sized_def by auto
  ultimately show ?thesis by (simp add: sized_def white_canvas_def list_all_iff)
next
  case False
  with assms have "h = 0" unfolding sized_def by auto
  then show ?thesis by (simp add: sized_def white_canvas_def)
qed

lemma pixel_white_canvas:
  assumes "0 \<le> x" "x < w" "0 \<le> y" "y < h"
  shows "pixel (white_canvas w h) (x, y) = 255"
  using assms by (simp add: pixel_def white_canvas_def)

lemma sized_eqI:
  assumes "sized w h a" "sized w h b"
    and "\<And>x y. 0 \<le> x \<Longrightarrow> x < w \<Longrightarrow> 0 \<le> y \<Longrightarrow> y < h \<Longrightarrow> pixel a (x, y) = pixel b (x, y)"
  shows "a = b"
proof (rule nth_equalityI)
  from assms(1,2) show len: "length a = length b" unfolding sized_def by auto
  fix i assume i: "i < length a"
  with assms(1) have ih: "0 \<le> int i" "int i < h" unfolding sized_def by auto
  from sized_row [OF assms(1) ih] sized_row [OF assms(2) ih]
  have la: "int (length (a ! i)) = w" and lb: "int (length (b ! i)) = w" by simp_all
  show "a ! i = b ! i"
  proof (rule nth_equalityI)
    from la lb show "length (a ! i) = length (b ! i)" by simp
    fix j assume "j < length (a ! i)"
    with la have "0 \<le> int j" "int j < w" by auto
    from assms(3) [OF this ih] show "a ! i ! j = b ! i ! j" by (simp add: pixel_def)
  qed
qed

section \<open>Sparse files\<close>

lemma nonwhite_row_mem:
  "(x, y', v) \<in> set (nonwhite_row img w y) \<longleftrightarrow>
     (0 \<le> x \<and> x < w \<and> y' = y \<and> v = pixel img (x, y) \<and> v < 255)"
  by (auto simp: nonwhite_row_def split: if_splits)

lemma save_compact_run:
  assumes "sized (gen_width self) (gen_height self) img"
  shows "save_compact self img =
     Inr \<lparr>sparse_width = gen_width self, sparse_height = gen_height self,
          sparse_format = ''sparse'',
          sparse_pixels = concat (map (nonwhite_row img (gen_width self)) [0..gen_height self - 1])\<rparr>"
proof -
  let ?w = "gen_width self" and ?h = "gen_height self"
  have body: "compact_body img y x acc =
      Inr (acc @ (if pixel img (x, y) < 255 then [(x, y, pixel img (x, y))] else []))"
    if "x \<in> set [0..?w - 1]" "y \<in> set [0..?h - 1]" for x y acc
  proof -
    from that have "0 \<le> x" "x < ?w" "0 \<le> y" "y < ?h" by auto
    from read_pixel_inside [OF assms this] show ?thesis by (simp add: compact_body_def)
  qed
  have inner: "for_each [0..?w - 1] (compact_body img y) acc = Inr (acc @ nonwhite_row img ?w y)"
    if "y \<in> set [0..?h - 1]" for y acc
    unfolding nonwhite_row_def
    by (rule for_each_collect) (rule body [OF _ that])
  have "for_each [0..?h - 1] (\<lambda>y. for_each [0..?w - 1] (compact_body img y)) []
      = Inr ([] @ concat (map (nonwhite_row img ?w) [0..?h - 1]))"
    by (rule for_each_collect) (rule inner)
  then show ?thesis by (simp add: save_compact_def py_range_def)
qed

lemma load_image_run:
  assumes "sized (sparse_width data) (sparse_height data) img0"
    and "list_all (in_canvas (sparse_width data) (sparse_height data)) (sparse_pixels data)"
  shows "load_image data =
     Inr (plot (white_canvas (sparse_width data) (sparse_height data)) (sparse_pixels data))"
proof -
  let ?w = "sparse_width data" and ?h = "sparse_height data"
  have "for_each (sparse_pixels data)
       (\<lambda>pixel img. case pixel of (x, y, v) \<Rightarrow> write_pixel img y x v) (white_canvas ?w ?h)
     = Inr (plot (white_canvas ?w ?h) (concat (map (\<lambda>t. [t]) (sparse_pixels data))))"
  proof (rule for_each_plot [OF sized_white_canvas [OF assms(1)]])
    fix a im assume a: "a \<in> set (sparse_pixels data)" and im: "sized ?w ?h im"
    obtain x y v where t: "a = (x, y, v)" by (cases a)
    from a assms(2) have "in_canvas ?w ?h (x, y, v)" by (simp add: list_all_iff t)
    from write_pixel_inside [OF im this]
    show "(case a of (x, y, v) \<Rightarrow> write_pixel im y x v) = Inr (plot im [a])"
      by (simp add: t plot_def)
  qed
  then show ?thesis by (simp add: load_image_def)
qed

text \<open>
  Claim C7: for every canvas of the generator's width and height with intensities up to
  255 (so in particular for one with fewer than 5 percent non-white pixels),
  \<^verbatim>\<open>save_compact\<close> stores the width, the height and the pixels below 255, and
  \<^verbatim>\<open>load_image\<close> on what was stored builds a white canvas of the stored size, applies
  the stored triples to it, and returns the original grid.
\<close>

theorem C7_sparse_round_trip:
  assumes "sized (gen_width self) (gen_height self) img"
    and "list_all (list_all (\<lambda>p. p \<le> 255)) img"
  shows "\<exists>data. save_compact self img = Inr data
     \<and> sparse_width data = gen_width self \<and> sparse_height data = gen_height self
     \<and> list_all (\<lambda>t. snd (snd t) < 255) (sparse_pixels data)
     \<and> load_image data =
         Inr (plot (white_canvas (sparse_width data) (sparse_height data)) (sparse_pixels data))
     \<and> load_image data = Inr img"
proof -
  let ?w = "gen_width self" and ?h = "gen_height self"
  let ?ts = "concat (map (nonwhite_row img ?w) [0..?h - 1])"
  let ?data = "\<lparr>sparse_width = ?w, sparse_height = ?h, sparse_format = ''sparse'',
                 sparse_pixels = ?ts\<rparr>"
  have mem: "(x, y, v) \<in> set ?ts \<longleftrightarrow>
      (0 \<le> x \<and> x < ?w \<and> 0 \<le> y \<and> y < ?h \<and> v = pixel img (x, y) \<and> v < 255)" for x y v
    by (auto simp: nonwhite_row_mem)
  have ins: "list_all (in_canvas ?w ?h) ?ts"
    unfolding list_all_iff
  proof
    fix t assume t: "t \<in> set ?ts"
    obtain x y v where "t = (x, y, v)" by (cases t)
    with t mem show "in_canvas ?w ?h t" by (simp add: in_canvas_def)
  qed
  have dark: "list_all (\<lambda>t. snd (snd t) < 255) ?ts"
    unfolding list_all_iff
  proof
    fix t assume t: "t \<in> set ?ts"
    obtain x y v where "t = (x, y, v)" by (cases t)
    with t mem show "snd (snd t) < 255" by simp
  qed
  have save: "save_compact self img = Inr ?data" by (rule save_compact_run [OF assms(1)])
  have load: "load_image ?data = Inr (plot (white_canvas ?w ?h) ?ts)"
    using load_image_run [of ?data img] assms(1) ins by simp
  have le: "pixel img (x, y) \<le> 255" if "0 \<le> x" "x < ?w" "0 \<le> y" "y < ?h" for x y
  proof -
    from that assms(1) have y: "nat y < length img" unfolding sized_def by auto
    from sized_row [OF assms(1) that(3,4)] that have x: "nat x < length (img ! nat y)" by auto
    from y have "img ! nat y \<in> set img" by simp
    with assms(2) have "list_all (\<lambda>p. p \<le> 255) (img ! nat y)" by (simp add: list_all_iff)
    with x show ?thesis by (simp add: list_all_iff pixel_def)
  qed
  have "plot (white_canvas ?w ?h) ?ts = img"
  proof (rule sized_eqI [OF sized_plot [OF sized_white_canvas [OF assms(1)]] assms(1)])
    fix x y assume r: "0 \<le> x" "x < ?w" "0 \<le> y" "y < ?h"
    from pixel_plot_cases [OF sized_white_canvas [OF assms(1)] ins r]
    show "pixel (plot (white_canvas ?w ?h) ?ts) (x, y) = pixel img (x, y)"
    proof
      assume a: "(\<forall>v. (x, y, v) \<notin> set ?ts)
         \<and> pixel (plot (white_canvas ?w ?h) ?ts) (x, y) = pixel (white_canvas ?w ?h) (x, y)"
      then have "\<not> pixel img (x, y) < 255" using mem r by blast
      with le [OF r] have "pixel img (x, y) = 255" by simp
      with a pixel_white_canvas [OF r] show ?thesis by simp
    next
      assume "(x, y, pixel (plot (white_canvas ?w ?h) ?ts) (x, y)) \<in> set ?ts"
      with mem show ?thesis by blast
    qed
  qed
  with load have "load_image ?data = Inr img" by simp
  with save load dark show ?thesis
    by (intro exI [of _ ?data]) simp
qed

theorem C7_sparse_round_trip_witness:
  "sized (gen_width (new_generator 5 5)) (gen_height (new_generator 5 5)) sparse_example
   \<and> list_all (list_all (\<lambda>p. p \<le> 255)) sparse_example
   \<and> save_compact (new_generator 5 5) sparse_example =
       Inr \<lparr>sparse_width = 5, sparse_height = 5, sparse_format = ''sparse'',
            sparse_pixels = [(2, 1, 40)]\<rparr>
   \<and> load_image \<lparr>sparse_width = 5, sparse_height = 5, sparse_format = ''sparse'',
                  sparse_pixels = [(2, 1, 40)]\<rparr> = Inr sparse_example"
proof -
  have s: "sized (gen_width (new_generator 5 5)) (gen_height (new_generator 5 5)) sparse_example"
    by code_simp
  have l: "list_all (list_all (\<lambda>p. p \<le> 255)) sparse_example" by code_simp
  have a: "save_compact (new_generator 5 5) sparse_example =
       Inr \<lparr>sparse_width = 5, sparse_height = 5, sparse_format = ''sparse'',
            sparse_pixels = [(2, 1, 40)]\<rparr>" by code_simp
  from C7_sparse_round_trip [OF s l] a
  have "load_image \<lparr>sparse_width = 5, sparse_height = 5, sparse_format = ''sparse'',
                  sparse_pixels = [(2, 1, 40)]\<rparr> = Inr sparse_example" by auto
  with s l a show ?thesis by blast
qed

section \<open>Skew\<close>








section \<open>Determinism\<close>

text \<open>
  Claim C2, as stated, fails: \<^verbatim>\<open>scan_image\<close> writes the wall clock into
  \<^verbatim>\<open>scan_metadata\<close>, so two scans of the same file with the same layout differ in
  \<^verbatim>\<open>scan_timestamp\<close> and \<^verbatim>\<open>processing_time_ms\<close>.
\<close>

theorem C2_wall_clock_counterexample:
  "map_sum id result_scan_metadata (scan_image morning ''s001_v1.json'' one_pixel_file no_question_layout)
     = Inr \<lparr>scan_timestamp = ''2025-03-01T09:00:00Z'', image_source = ''s001_v1.json'',
            scanner_version = ''testscan-1.0.0'', processing_time_ms = 250\<rparr>
   \<and> map_sum id result_scan_metadata (scan_image evening ''s001_v1.json'' one_pixel_file no_question_layout)
     = Inr \<lparr>scan_timestamp = ''2025-03-01T21:00:00Z'', image_source = ''s001_v1.json'',
            scanner_version = ''testscan-1.0.0'', processing_time_ms = 500\<rparr>
   \<and> scan_image morning ''s001_v1.json'' one_pixel_file no_question_layout
     \<noteq> scan_image evening ''s001_v1.json'' one_pixel_file no_question_layout"
  by code_simp

text \<open>
  Claim C2, amended: for a seed that is given and not zero, the files the synthesis
  command writes do not depend on the state the random source had before (they are a
  function of the seed and the inputs), and two scans of the same file with the same
  layout agree on every field of the scan result except \<^verbatim>\<open>scan_timestamp\<close> and
  \<^verbatim>\<open>processing_time_ms\<close>, whatever the clock reads.
\<close>

theorem C2_seeded_determinism:
  assumes "arg_seed args = Some n" "n \<noteq> 0"
  shows "testgen_main rs args layout order ambient1 = testgen_main rs args layout order ambient2
     \<and> map_sum id timeless (scan_image clk1 path data layout)
       = map_sum id timeless (scan_image clk2 path data layout)"
proof
  show "testgen_main rs args layout order ambient1 = testgen_main rs args layout order ambient2"
    using assms by (simp add: testgen_main_def)
  show "map_sum id timeless (scan_image clk1 path data layout)
       = map_sum id timeless (scan_image clk2 path data layout)"
    by (simp add: scan_image_def timeless_def split: sum.splits prod.splits)
qed

theorem C2_seeded_determinism_witness:
  "arg_seed seeded_args = Some 42 \<and> (42 :: int) \<noteq> 0
   \<and> testgen_main counter_source seeded_args no_question_layout one_student_order 1
     = testgen_main counter_source seeded_args no_question_layout one_student_order 2
   \<and> map_sum id timeless (scan_image morning ''s001_v1.json'' one_pixel_file no_question_layout)
     = map_sum id timeless (scan_image evening ''s001_v1.json'' one_pixel_file no_question_layout)"
proof -
  have s: "arg_seed seeded_args = Some 42" by (simp add: seeded_args_def)
  have n: "(42 :: int) \<noteq> 0" by simp
  from C2_seeded_determinism [OF s n, of counter_source no_question_layout one_student_order
      1 2 morning "''s001_v1.json''" one_pixel_file evening] s n
  show ?thesis by blast
qed

section \<open>Drawing renders figures\<close>






















section \<open>Bubbles on a rendered page\<close>












section \<open>The round trip\<close>










end
